theory Spec2Isabelle
  imports Main "HOL-Library.Word"
begin

unbundle bit_operations_syntax

text \<open>
  A shallow embedding of the VLAN-aware Ethernet switch \<^verbatim>\<open>vswitch.c\<close>: its learning table,
  its forwarding engine (\<^verbatim>\<open>parse_frame\<close> and the two flooding loops) and its parser of port
  specifications, followed by the properties of the specification that hold of them and
  by evaluations of the code where it departs from the specification.
\<close>

section \<open>Data model of vswitch.c\<close>

type_synonym uint8_t = "8 word"
type_synonym uint16_t = "16 word"

text \<open>\<^verbatim>\<open>struct MacAddress { uint8_t mac[MAC_ADDR_SIZE]; }\<close>: an array of six bytes.\<close>

type_synonym MacAddress = "uint8_t list"

definition MAC_ADDR_SIZE :: nat where
  "MAC_ADDR_SIZE = 6"

definition MAX_VLANS :: nat where
  "MAX_VLANS = 4092"

definition NO_VLAN :: int where
  "NO_VLAN = - 1"

definition DEFAULT_VLAN :: int where
  "DEFAULT_VLAN = 0"

definition ETH_802_1Q_TAG :: uint16_t where
  "ETH_802_1Q_TAG = 0x8100"

definition NBR_ENTRIES :: nat where
  "NBR_ENTRIES = 8"

definition IF_NO_INIT :: uint16_t where
  "IF_NO_INIT = 65535"

text \<open>
  \<^verbatim>\<open>struct Interface\<close>. The array \<^verbatim>\<open>int16_t tagged_vlans[MAX_VLANS + 1]\<close> is a list of
  \<open>MAX_VLANS + 1\<close> entries; VLAN numbers are kept as \<open>int\<close>, every value the program
  stores (\<open>-1\<close> and \<open>0..4092\<close>) fits \<^verbatim>\<open>int16_t\<close>. \<^verbatim>\<open>char *ifc_name\<close> is the string it
  points to (empty for the null pointer).
\<close>

record Interface =
  mac :: MacAddress
  ifc_num :: uint16_t
  ifc_name :: string
  tagged_vlans :: "int list"
  untagged_vlan :: int

text \<open>\<^verbatim>\<open>struct LookupTable\<close>: \<^verbatim>\<open>table[NBR_ENTRIES]\<close>, \<^verbatim>\<open>nbr_position\<close>, \<^verbatim>\<open>current_position\<close>.\<close>

record LookupTable =
  table :: "Interface list"
  nbr_position :: int
  current_position :: int

text \<open>
  An \<^verbatim>\<open>Interface\<close> whose bytes are all zero: what \<^verbatim>\<open>memset (ifc, 0, sizeof (ifc))\<close> in
  \<^verbatim>\<open>main\<close>, static storage and the omitted members of an aggregate initialiser give.
  It also stands for the two locals (\<^verbatim>\<open>tmp_if\<close>, \<^verbatim>\<open>found_interface\<close>) that the source
  leaves uninitialised: the members that are read from them (\<^verbatim>\<open>ifc_num\<close>) are written
  by \<^verbatim>\<open>search_lookup_table\<close> on every path that reads them.
\<close>

definition zero_Interface :: Interface where
  "zero_Interface =
     \<lparr>mac = replicate MAC_ADDR_SIZE 0, ifc_num = 0, ifc_name = [],
      tagged_vlans = replicate (MAX_VLANS + 1) 0, untagged_vlan = 0\<rparr>"

text \<open>The global \<^verbatim>\<open>LookupTable lookupTable;\<close> at program start (static storage: all zero).\<close>

definition lookupTable :: LookupTable where
  "lookupTable =
     \<lparr>table = replicate NBR_ENTRIES zero_Interface, nbr_position = 0, current_position = 0\<rparr>"

section \<open>The learning table\<close>

text \<open>
  The loops \<^verbatim>\<open>for (j = 0; j < 6; j++) a.mac[j] = b.mac[j]\<close> leave in \<open>a\<close> the six bytes
  read from \<open>b\<close>.
\<close>

definition mac_copy :: "MacAddress \<Rightarrow> MacAddress" where
  "mac_copy m = map (\<lambda>j. m ! j) [0..<MAC_ADDR_SIZE]"

definition empty_mac :: MacAddress where
  "empty_mac = [0, 0, 0, 0, 0, 0]"

text \<open>\<^verbatim>\<open>lookup_table_init\<close>: every slot gets the zero MAC and the port \<open>IF_NO_INIT\<close>.\<close>

definition lookup_table_init :: "LookupTable \<Rightarrow> LookupTable" where
  "lookup_table_init lt =
     lt\<lparr>table := foldl (\<lambda>t i. t[i := (t ! i)\<lparr>mac := mac_copy empty_mac, ifc_num := IF_NO_INIT\<rparr>])
                     (table lt) [0..<NBR_ENTRIES],
        nbr_position := int NBR_ENTRIES,
        current_position := 0\<rparr>"

text \<open>
  The inner loop of \<^verbatim>\<open>search_lookup_table\<close>: \<^verbatim>\<open>match\<close> stays 1 iff the six bytes agree.
\<close>

definition mac_match :: "MacAddress \<Rightarrow> MacAddress \<Rightarrow> bool" where
  "mac_match a b = list_all (\<lambda>j. a ! j = b ! j) [0..<MAC_ADDR_SIZE]"

text \<open>
  \<^verbatim>\<open>search_lookup_table\<close>: the loop over \<open>i\<close>, returning the position (or \<open>-1\<close>) and the
  out-parameter \<^verbatim>\<open>found_interface\<close>.
\<close>

function search_loop :: "LookupTable \<Rightarrow> MacAddress \<Rightarrow> Interface \<Rightarrow> int \<Rightarrow> int \<times> Interface" where
  "search_loop lt targetMac found_interface i =
     (if i < nbr_position lt then
        (if mac_match (mac (table lt ! nat i)) targetMac \<and> ifc_num (table lt ! nat i) \<noteq> IF_NO_INIT
         then (i, found_interface\<lparr>ifc_num := ifc_num (table lt ! nat i),
                                  mac := mac_copy (mac (table lt ! nat i))\<rparr>)
         else search_loop lt targetMac found_interface (i + 1))
      else (- 1, found_interface))"
  by pat_completeness auto
termination
  by (relation "measure (\<lambda>(lt, targetMac, found_interface, i). nat (nbr_position lt - i))") auto

declare search_loop.simps [simp del]

definition search_lookup_table :: "LookupTable \<Rightarrow> MacAddress \<Rightarrow> Interface \<Rightarrow> int \<times> Interface" where
  "search_lookup_table lt targetMac found_interface = search_loop lt targetMac found_interface 0"

text \<open>
  \<^verbatim>\<open>save_to_table\<close>, returning its \<^verbatim>\<open>int\<close> and the table. C's \<^verbatim>\<open>%\<close> and \<open>mod\<close> agree here:
  both operands are non-negative once the table is initialised (\<^verbatim>\<open>nbr_position = 8\<close>).
\<close>

definition save_to_table :: "LookupTable \<Rightarrow> Interface \<Rightarrow> int \<times> LookupTable" where
  "save_to_table lt new_if =
     (let (table_pos, tmp_if) = search_lookup_table lt (mac new_if) zero_Interface in
      if - 1 \<noteq> table_pos then
        (if ifc_num tmp_if = ifc_num new_if then (- 1, lt)
         else (0, lt\<lparr>table := (table lt)[nat table_pos :=
                       (table lt ! nat table_pos)\<lparr>ifc_num := ifc_num new_if\<rparr>]\<rparr>))
      else
        (let cp = current_position lt in
         (0, lt\<lparr>table := (table lt)[nat cp :=
                   (table lt ! nat cp)\<lparr>ifc_num := ifc_num new_if, mac := mac_copy (mac new_if)\<rparr>],
                current_position := (cp + 1) mod nbr_position lt\<rparr>)))"

section \<open>Frames and driver messages\<close>

text \<open>
  A frame is the list of its \<^verbatim>\<open>frame_size\<close> bytes. \<^verbatim>\<open>struct EthernetHeader\<close> is packed
  (14 bytes); its \<^verbatim>\<open>uint16_t tag\<close> is kept as the two bytes it occupies in memory, which
  are the bytes 12 and 13 of the frame, and is only ever read through \<^verbatim>\<open>ntohs\<close>.
\<close>

record EthernetHeader =
  dst :: MacAddress
  src :: MacAddress
  tag :: "uint8_t list"

text \<open>
  \<open>htons w\<close> is the pair of bytes that the value \<^verbatim>\<open>htons (w)\<close> occupies in memory (most
  significant first, on every host); \<open>ntohs bs\<close> is \<^verbatim>\<open>ntohs\<close> of the \<^verbatim>\<open>uint16_t\<close> whose bytes
  in memory are \<open>bs\<close>.
\<close>

definition htons :: "uint16_t \<Rightarrow> uint8_t list" where
  "htons w = [ucast (drop_bit 8 w), ucast w]"

definition ntohs :: "uint8_t list \<Rightarrow> uint16_t" where
  "ntohs bs = push_bit 8 (ucast (bs ! 0)) OR ucast (bs ! 1)"

text \<open>
  \<^verbatim>\<open>forward_to\<close>: one \<^verbatim>\<open>write_all\<close> of \<^verbatim>\<open>iob\<close>, the \<^verbatim>\<open>GLAB_MessageHeader\<close> (size, then type
  = egress port, both through \<^verbatim>\<open>htons\<close>) followed by the frame. The functions below return
  the list of these writes, in order.
\<close>

definition forward_to :: "Interface \<Rightarrow> uint8_t list \<Rightarrow> uint8_t list" where
  "forward_to d frame = htons (of_nat (length frame + 4)) @ htons (ifc_num d) @ frame"

text \<open>Reading a written message back: the egress port and the frame it carries.\<close>

definition msg_port :: "uint8_t list \<Rightarrow> uint16_t" where
  "msg_port iob = ntohs (take 2 (drop 2 iob))"

definition msg_frame :: "uint8_t list \<Rightarrow> uint8_t list" where
  "msg_frame iob = drop 4 iob"

section \<open>The forwarding engine\<close>

text \<open>
  The buffer \<^verbatim>\<open>untagged_frame\<close> of \<^verbatim>\<open>parse_tagged_frame\<close> after its two copy loops, as far
  as \<^verbatim>\<open>forward_to\<close> reads it (\<^verbatim>\<open>frame_size - 4\<close> bytes). The source declares the buffer
  with \<^verbatim>\<open>frame_size - 4\<close> bytes and its second loop runs up to index \<^verbatim>\<open>frame_size - 1\<close>:
  the last four writes lie behind the array, and the four values written there are read
  from behind \<^verbatim>\<open>byte_frame\<close>. None of these cells is forwarded, and the cells of
  \<^verbatim>\<open>byte_frame\<close> that the loop reads (index 16 and up) are not among those it can
  overwrite (index 0 to 3), so the bytes forwarded are the ones given here.
\<close>

definition untagged_frame :: "uint8_t list \<Rightarrow> EthernetHeader \<Rightarrow> uint8_t list" where
  "untagged_frame frame header =
     map (\<lambda>k. if k < 6 then dst header ! k
              else if k < 12 then src header ! (k - 6)
              else frame ! (k + 4))
         [0..<length frame - 4]"

text \<open>
  The buffer \<^verbatim>\<open>tagged_frame\<close> of \<^verbatim>\<open>parse_untagged_frame\<close> after its three copy loops
  (\<^verbatim>\<open>frame_size + 4\<close> bytes are forwarded), read as an array that holds all the cells the
  loops write. \<^verbatim>\<open>struct Q tag\<close> is \<^verbatim>\<open>htons (0x8100)\<close> followed by \<^verbatim>\<open>htons (0x001)\<close>.

  The source declares the array with \<^verbatim>\<open>frame_size - 12\<close> bytes only, so its last 16 writes
  lie behind the array. As long as \<^verbatim>\<open>byte_frame\<close> starts at least 16 bytes behind the start of
  \<^verbatim>\<open>tagged_frame\<close> (as it does where the stack grows in steps of 16 bytes), this array
  reading gives the bytes of the first tagged copy that is made of a frame
  (\<open>first_tagged_copy\<close> below). The writes behind the array can reach \<^verbatim>\<open>byte_frame\<close>,
  from which a later tagged copy of the same frame is made; section
  \<open>The tagged copy in memory\<close> follows these writes.
\<close>

definition tagged_frame :: "uint8_t list \<Rightarrow> EthernetHeader \<Rightarrow> uint8_t list" where
  "tagged_frame frame header =
     map (\<lambda>k. if k < 6 then dst header ! k
              else if k < 12 then src header ! (k - 6)
              else if k < 16 then (htons 0x8100 @ htons 0x001) ! (k - 12)
              else frame ! (k - 4))
         [0..<length frame + 4]"

text \<open>The loop of \<^verbatim>\<open>parse_tagged_frame\<close> over \<^verbatim>\<open>gifc[0 .. num_ifc - 1]\<close>.\<close>

fun parse_tagged_frame_loop ::
  "Interface \<Rightarrow> uint8_t list \<Rightarrow> EthernetHeader \<Rightarrow> Interface list \<Rightarrow> uint8_t list list" where
  "parse_tagged_frame_loop ifc frame header [] = []"
| "parse_tagged_frame_loop ifc frame header (g # gs) =
     (if ifc_num g = ifc_num ifc then parse_tagged_frame_loop ifc frame header gs
      else if tagged_vlans g ! 0 = tagged_vlans ifc ! 0
        then forward_to g frame # parse_tagged_frame_loop ifc frame header gs
      else if untagged_vlan g = tagged_vlans ifc ! 0
        then forward_to g (untagged_frame frame header) # parse_tagged_frame_loop ifc frame header gs
      else parse_tagged_frame_loop ifc frame header gs)"

definition parse_tagged_frame ::
  "Interface list \<Rightarrow> Interface \<Rightarrow> uint8_t list \<Rightarrow> EthernetHeader \<Rightarrow> uint8_t list list" where
  "parse_tagged_frame gifc ifc frame header =
     (if untagged_vlan ifc \<noteq> NO_VLAN then []
      else parse_tagged_frame_loop ifc frame header gifc)"

text \<open>The loop of \<^verbatim>\<open>parse_untagged_frame\<close>.\<close>

fun parse_untagged_frame ::
  "Interface list \<Rightarrow> Interface \<Rightarrow> uint8_t list \<Rightarrow> EthernetHeader \<Rightarrow> uint8_t list list" where
  "parse_untagged_frame [] ifc frame header = []"
| "parse_untagged_frame (g # gs) ifc frame header =
     (if ifc_num g = ifc_num ifc then parse_untagged_frame gs ifc frame header
      else if untagged_vlan g = untagged_vlan ifc
        then forward_to g frame # parse_untagged_frame gs ifc frame header
      else if tagged_vlans g ! 0 = untagged_vlan ifc \<and> ifc_num g \<noteq> ifc_num ifc
        then forward_to g (tagged_frame frame header) # parse_untagged_frame gs ifc frame header
      else parse_untagged_frame gs ifc frame header)"

text \<open>The header that \<^verbatim>\<open>parse_frame\<close> copies out of the first 14 bytes of the frame.\<close>

definition read_header :: "uint8_t list \<Rightarrow> EthernetHeader" where
  "read_header frame =
     \<lparr>dst = map (\<lambda>i. frame ! i) [0..<6],
      src = map (\<lambda>i. frame ! (6 + i)) [0..<6],
      tag = [frame ! 12, frame ! 13]\<rparr>"

text \<open>
  \<^verbatim>\<open>parse_frame\<close>: the writes to the driver, in order, and the learning table afterwards.
\<close>

definition parse_frame ::
  "Interface list \<Rightarrow> Interface \<Rightarrow> uint8_t list \<Rightarrow> LookupTable \<Rightarrow> uint8_t list list \<times> LookupTable" where
  "parse_frame gifc ifc frame lt0 =
     (let lt = (if nbr_position lt0 = 0 then lookup_table_init lt0 else lt0) in
      if length frame < 14 then ([], lt)
      else
        let header = read_header frame;
            src_addr = mac_copy (src header);
            dst_addr = mac_copy (dst header)
        in
          if (src_addr ! 0) AND 1 \<noteq> 0 then ([], lt)
          else
            let lkp_entry = zero_Interface\<lparr>mac := src_addr, ifc_num := ifc_num ifc\<rparr>;
                lt' = snd (save_to_table lt lkp_entry);
                (noMacFound, found_interface) =
                  (if (dst_addr ! 0) AND 1 = 0
                   then search_lookup_table lt' dst_addr zero_Interface
                   else (- 1, zero_Interface));
                ethertype = ntohs (tag header) AND 0xFFFF
            in
              if noMacFound = - 1 then
                (if ethertype = ETH_802_1Q_TAG
                   then (parse_tagged_frame gifc ifc frame header, lt')
                 else if untagged_vlan ifc \<noteq> NO_VLAN
                   then (parse_untagged_frame gifc ifc frame header, lt')
                 else ([], lt'))
              else ([forward_to found_interface frame], lt'))"

text \<open>
  \<^verbatim>\<open>handle_frame\<close>: \<^verbatim>\<open>abort ()\<close> is \<open>None\<close>. \<^verbatim>\<open>loop ()\<close> hands type 0 to the control
  handlers, so \<open>interface = 0\<close> never arrives here (\<^verbatim>\<open>gifc[-1]\<close> would lie outside the
  array); the model gives \<open>None\<close> there as well. \<^verbatim>\<open>num_ifc\<close> is the length of \<^verbatim>\<open>gifc\<close>.
\<close>

definition handle_frame ::
  "Interface list \<Rightarrow> uint16_t \<Rightarrow> uint8_t list \<Rightarrow> LookupTable \<Rightarrow> (uint8_t list list \<times> LookupTable) option" where
  "handle_frame gifc interface frame lt =
     (if unat interface > length gifc \<or> interface = 0 then None
      else Some (parse_frame gifc (gifc ! (unat interface - 1)) frame lt))"

text \<open>
  The frames of a run, one \<^verbatim>\<open>handle_frame\<close> call after the other on the global table:
  all writes so far and the table reached.
\<close>

fun run ::
  "Interface list \<Rightarrow> (uint16_t \<times> uint8_t list) list \<Rightarrow> LookupTable \<Rightarrow> (uint8_t list list \<times> LookupTable) option" where
  "run gifc [] lt = Some ([], lt)"
| "run gifc ((interface, frame) # rest) lt =
     (case handle_frame gifc interface frame lt of
        None \<Rightarrow> None
      | Some (out, lt') \<Rightarrow>
          (case run gifc rest lt' of
             None \<Rightarrow> None
           | Some (out', lt'') \<Rightarrow> Some (out @ out', lt'')))"

section \<open>The tagged copy in memory\<close>

text \<open>
  \<^verbatim>\<open>parse_untagged_frame\<close> with its two local arrays as they lie in memory. Both are
  variable-length arrays on the stack: \<^verbatim>\<open>byte_frame\<close> (\<^verbatim>\<open>frame_size\<close> bytes) is allocated
  first, \<^verbatim>\<open>tagged_frame\<close> (\<^verbatim>\<open>frame_size - 12\<close> bytes) in the loop body, at the lower
  address. The one thing the source does not fix is the distance between them: \<open>gap\<close> is
  the number of bytes between the end of \<^verbatim>\<open>tagged_frame\<close> and \<^verbatim>\<open>byte_frame[0]\<close> (0 when the
  compiler rounds the 16-byte array of a 28-byte frame to a multiple of 16).

  \<open>mem\<close> is the memory from \<^verbatim>\<open>tagged_frame[0]\<close> to the end of \<^verbatim>\<open>byte_frame\<close>:
  \<^verbatim>\<open>tagged_frame[k]\<close> is \<open>mem ! k\<close> and \<^verbatim>\<open>byte_frame[i]\<close> is \<open>mem ! (base + i)\<close>. The three
  copy loops run in the order of the source; the result is the \<^verbatim>\<open>frame_size + 4\<close> bytes
  that \<^verbatim>\<open>forward_to\<close> reads from \<^verbatim>\<open>tagged_frame\<close>, and \<^verbatim>\<open>byte_frame\<close> as the loops leave it.
  Every cell that is read has been written before (the cells of \<^verbatim>\<open>tagged_frame\<close> start
  as 0 here). The model is meant for \<open>16 \<le> frame_size + gap\<close>, where no write goes
  behind \<^verbatim>\<open>byte_frame\<close>.
\<close>

definition tagged_frame_mem ::
  "nat \<Rightarrow> EthernetHeader \<Rightarrow> uint8_t list \<Rightarrow> uint8_t list \<times> uint8_t list" where
  "tagged_frame_mem gap header byte_frame =
     (let frame_size = length byte_frame;
          base = frame_size - 12 + gap;
          mem0 = replicate base 0 @ byte_frame;
          mem1 = foldl (\<lambda>m i. m[i := dst header ! i, 6 + i := src header ! i]) mem0 [0..<6];
          mem2 = foldl (\<lambda>m i. m[12 + i := (htons 0x8100 @ htons 0x001) ! i]) mem1 [0..<4];
          mem3 = foldl (\<lambda>m i. m[i + 4 := m ! (base + i)]) mem2 [12..<frame_size]
      in (take (frame_size + 4) mem3, drop base mem3))"

text \<open>
  The loop of \<^verbatim>\<open>parse_untagged_frame\<close> again, with \<^verbatim>\<open>byte_frame\<close> carried from one iteration
  to the next. \<^verbatim>\<open>frame\<close> itself lies in the buffer of \<^verbatim>\<open>loop ()\<close> and stays as received;
  \<^verbatim>\<open>parse_untagged_frame\<close> starts with \<^verbatim>\<open>byte_frame\<close> a copy of it.
\<close>

fun parse_untagged_frame_mem ::
  "nat \<Rightarrow> Interface list \<Rightarrow> Interface \<Rightarrow> uint8_t list \<Rightarrow> EthernetHeader \<Rightarrow> uint8_t list \<Rightarrow>
   uint8_t list list" where
  "parse_untagged_frame_mem gap [] ifc frame header byte_frame = []"
| "parse_untagged_frame_mem gap (g # gs) ifc frame header byte_frame =
     (if ifc_num g = ifc_num ifc then parse_untagged_frame_mem gap gs ifc frame header byte_frame
      else if untagged_vlan g = untagged_vlan ifc
        then forward_to g frame # parse_untagged_frame_mem gap gs ifc frame header byte_frame
      else if tagged_vlans g ! 0 = untagged_vlan ifc \<and> ifc_num g \<noteq> ifc_num ifc
        then forward_to g (fst (tagged_frame_mem gap header byte_frame)) #
             parse_untagged_frame_mem gap gs ifc frame header
               (snd (tagged_frame_mem gap header byte_frame))
      else parse_untagged_frame_mem gap gs ifc frame header byte_frame)"

text \<open>
  \<^verbatim>\<open>parse_frame\<close> once more, the same line by line, with the flooding of an untagged frame
  taken from memory.
\<close>

definition parse_frame_mem ::
  "nat \<Rightarrow> Interface list \<Rightarrow> Interface \<Rightarrow> uint8_t list \<Rightarrow> LookupTable \<Rightarrow> uint8_t list list \<times> LookupTable" where
  "parse_frame_mem gap gifc ifc frame lt0 =
     (let lt = (if nbr_position lt0 = 0 then lookup_table_init lt0 else lt0) in
      if length frame < 14 then ([], lt)
      else
        let header = read_header frame;
            src_addr = mac_copy (src header);
            dst_addr = mac_copy (dst header)
        in
          if (src_addr ! 0) AND 1 \<noteq> 0 then ([], lt)
          else
            let lkp_entry = zero_Interface\<lparr>mac := src_addr, ifc_num := ifc_num ifc\<rparr>;
                lt' = snd (save_to_table lt lkp_entry);
                (noMacFound, found_interface) =
                  (if (dst_addr ! 0) AND 1 = 0
                   then search_lookup_table lt' dst_addr zero_Interface
                   else (- 1, zero_Interface));
                ethertype = ntohs (tag header) AND 0xFFFF
            in
              if noMacFound = - 1 then
                (if ethertype = ETH_802_1Q_TAG
                   then (parse_tagged_frame gifc ifc frame header, lt')
                 else if untagged_vlan ifc \<noteq> NO_VLAN
                   then (parse_untagged_frame_mem gap gifc ifc frame header frame, lt')
                 else ([], lt'))
              else ([forward_to found_interface frame], lt'))"

section \<open>Port specifications on the command line\<close>

text \<open>
  Every \<^verbatim>\<open>return 1\<close> of the parser is an error value (the \<^verbatim>\<open>fprintf\<close> that precedes it
  names it); \<^verbatim>\<open>return 0\<close> gives the interface as the call leaves it. Allocation is
  taken to succeed (\<^verbatim>\<open>strdup\<close>, \<^verbatim>\<open>strndup\<close> never return \<^verbatim>\<open>NULL\<close>), and the parameter
  \<^verbatim>\<open>off\<close>, which is only printed, is left out.
\<close>

datatype parse_error =
  LacksColon | TooManyVlans | ExpectedNumber | VidTooLarge | LacksCloseBracket | Unsupported

text \<open>
  \<^verbatim>\<open>sscanf (tok, "%u", &tag)\<close> belongs to the C library, not to this program: the parser
  takes it as a parameter \<open>scan\<close>, with \<open>scan tok = Some v\<close> when the call returns 1 and
  stores \<open>v\<close>, and \<open>None\<close> when it returns anything else. The local
  \<^verbatim>\<open>unsigned int tag\<close> is \<open>tagu\<close> below.
\<close>

type_synonym scanner = "string \<Rightarrow> nat option"

text \<open>
  The tokens that the calls \<^verbatim>\<open>strtok (spec, ",")\<close>, \<^verbatim>\<open>strtok (NULL, ",")\<close>, ... return until
  \<^verbatim>\<open>NULL\<close>: the maximal non-empty runs without a comma. \<open>cur\<close> is the run being read.
\<close>

fun strtok_from :: "string \<Rightarrow> string \<Rightarrow> string list" where
  "strtok_from cur [] = (if cur = [] then [] else [cur])"
| "strtok_from cur (c # cs) =
     (if c = CHR '','' then (if cur = [] then strtok_from [] cs else cur # strtok_from [] cs)
      else strtok_from (cur @ [c]) cs)"

definition strtok :: "string \<Rightarrow> string list" where
  "strtok spec = strtok_from [] spec"

text \<open>The token loop of \<^verbatim>\<open>parse_tagged\<close>; it returns \<^verbatim>\<open>pos\<close> and the interface.\<close>

fun parse_tagged_loop ::
  "scanner \<Rightarrow> string list \<Rightarrow> nat \<Rightarrow> Interface \<Rightarrow> parse_error + nat \<times> Interface" where
  "parse_tagged_loop scan [] pos ifc = Inr (pos, ifc)"
| "parse_tagged_loop scan (tok # toks) pos ifc =
     (if pos = MAX_VLANS then Inl TooManyVlans
      else case scan tok of
        None \<Rightarrow> Inl ExpectedNumber
      | Some tagu \<Rightarrow>
          if tagu > MAX_VLANS then Inl VidTooLarge
          else parse_tagged_loop scan toks (pos + 1)
                 (ifc\<lparr>tagged_vlans := (tagged_vlans ifc)[pos := int tagu]\<rparr>))"

text \<open>
  \<^verbatim>\<open>parse_tagged (start, end, off, ifc)\<close>: \<open>s\<close> is the text from \<^verbatim>\<open>start\<close> up to \<^verbatim>\<open>end\<close>
  (which points to the closing bracket, so \<^verbatim>\<open>*start\<close> is that bracket when \<open>s\<close> is empty).
\<close>

definition parse_tagged :: "scanner \<Rightarrow> string \<Rightarrow> Interface \<Rightarrow> parse_error + Interface" where
  "parse_tagged scan s ifc =
     (case s of
        [] \<Rightarrow> Inl LacksColon
      | c # spec \<Rightarrow>
          if CHR '':'' \<noteq> c then Inl LacksColon
          else case parse_tagged_loop scan (strtok spec) 0 ifc of
            Inl e \<Rightarrow> Inl e
          | Inr (pos, ifc') \<Rightarrow> Inr (ifc'\<lparr>tagged_vlans := (tagged_vlans ifc')[pos := NO_VLAN]\<rparr>))"

definition parse_untagged :: "scanner \<Rightarrow> string \<Rightarrow> Interface \<Rightarrow> parse_error + Interface" where
  "parse_untagged scan s ifc =
     (case s of
        [] \<Rightarrow> Inl LacksColon
      | c # spec \<Rightarrow>
          if CHR '':'' \<noteq> c then Inl LacksColon
          else case scan spec of
            None \<Rightarrow> Inl ExpectedNumber
          | Some tagu \<Rightarrow>
              if tagu > MAX_VLANS then Inl VidTooLarge
              else Inr (ifc\<lparr>untagged_vlan := int tagu\<rparr>))"

text \<open>
  \<^verbatim>\<open>parse_vlan_args\<close>. \<open>after\<close> is the text behind the first opening bracket
  (\<^verbatim>\<open>openbracket\<close> after its increment), \<open>body\<close> the part of it before the first closing
  bracket; \<^verbatim>\<open>*openbracket\<close> is the head of \<open>body\<close>, or the closing bracket when \<open>body\<close> is
  empty.
\<close>

definition parse_vlan_args :: "scanner \<Rightarrow> string \<Rightarrow> Interface \<Rightarrow> parse_error + Interface" where
  "parse_vlan_args scan arg ifc0 =
     (let ifc = ifc0\<lparr>tagged_vlans := (tagged_vlans ifc0)[0 := NO_VLAN], untagged_vlan := NO_VLAN\<rparr> in
      if CHR ''['' \<notin> set arg
        then Inr (ifc\<lparr>ifc_name := arg, untagged_vlan := DEFAULT_VLAN\<rparr>)
      else
        let ifc1 = ifc\<lparr>ifc_name := takeWhile (\<lambda>c. c \<noteq> CHR ''['') arg\<rparr>;
            after = tl (dropWhile (\<lambda>c. c \<noteq> CHR ''['') arg)
        in
          if CHR '']'' \<notin> set after then Inl LacksCloseBracket
          else
            (case takeWhile (\<lambda>c. c \<noteq> CHR '']'') after of
               [] \<Rightarrow> Inl Unsupported
             | c # s \<Rightarrow>
                 if c = CHR ''T'' then parse_tagged scan s ifc1
                 else if c = CHR ''U'' then parse_untagged scan s ifc1
                 else Inl Unsupported))"

text \<open>
  The start of \<^verbatim>\<open>main\<close>: the interfaces \<^verbatim>\<open>ifc[0 .. argc - 2]\<close> from \<^verbatim>\<open>argv[1 .. argc - 1]\<close>,
  numbered from \<open>i\<close> on, or the exit code 1 at the first specification that fails.
\<close>

fun parse_ports :: "scanner \<Rightarrow> string list \<Rightarrow> nat \<Rightarrow> int + Interface list" where
  "parse_ports scan [] i = Inr []"
| "parse_ports scan (arg # args) i =
     (case parse_vlan_args scan arg (zero_Interface\<lparr>ifc_num := of_nat i\<rparr>) of
        Inl e \<Rightarrow> Inl 1
      | Inr g \<Rightarrow> (case parse_ports scan args (i + 1) of Inl rc \<Rightarrow> Inl rc | Inr gs \<Rightarrow> Inr (g # gs)))"

definition main_ports :: "scanner \<Rightarrow> string list \<Rightarrow> int + Interface list" where
  "main_ports scan args = parse_ports scan args 1"

text \<open>
  A scanner for the witnesses and sample inputs: the value of the leading decimal digits,
  \<open>None\<close> when the text does not start with a digit. It agrees with \<^verbatim>\<open>sscanf\<close> and \<^verbatim>\<open>"%u"\<close>
  on texts that start with a digit and whose number fits \<^verbatim>\<open>unsigned int\<close>, and it is used
  on such texts only. It is not \<^verbatim>\<open>sscanf\<close> elsewhere: the real call skips leading white
  space and accepts a sign (\<^verbatim>\<open>" 5"\<close> is read as 5), and a number beyond \<^verbatim>\<open>unsigned int\<close>
  is stored reduced (\<^verbatim>\<open>"4294967297"\<close> arrives as 1 where \<^verbatim>\<open>unsigned int\<close> has 32 bits).
\<close>

definition digit_of :: "char \<Rightarrow> nat option" where
  "digit_of c =
     (let n = (of_char c :: nat) in if 48 \<le> n \<and> n \<le> 57 then Some (n - 48) else None)"

fun scan_digits_from :: "nat \<Rightarrow> string \<Rightarrow> nat" where
  "scan_digits_from acc [] = acc"
| "scan_digits_from acc (c # cs) =
     (case digit_of c of None \<Rightarrow> acc | Some d \<Rightarrow> scan_digits_from (10 * acc + d) cs)"

definition scan_digits :: scanner where
  "scan_digits s =
     (case s of [] \<Rightarrow> None
      | c # cs \<Rightarrow> (case digit_of c of None \<Rightarrow> None | Some d \<Rightarrow> Some (scan_digits_from d cs)))"

text \<open>
  A second scanner, which stores the number of the leading digits reduced to 32 bits. It
  converts every text the same way as \<open>scan_digits\<close> as long as the number fits
  \<^verbatim>\<open>unsigned int\<close>; it stands for a C library that converts the digits in a wider type and
  stores the low 32 bits.
\<close>

definition scan_reduced :: scanner where
  "scan_reduced s = map_option (\<lambda>v. v mod 2 ^ 32) (scan_digits s)"

section \<open>Vocabulary of the properties\<close>

text \<open>
  Slot \<open>k\<close> passes the test of \<^verbatim>\<open>search_lookup_table\<close> for the address \<open>M\<close>: the six bytes
  agree and the port is not \<open>IF_NO_INIT\<close>.
\<close>

definition live :: "LookupTable \<Rightarrow> MacAddress \<Rightarrow> nat \<Rightarrow> bool" where
  "live lt M k = (mac_match (mac (table lt ! k)) M \<and> ifc_num (table lt ! k) \<noteq> IF_NO_INIT)"

text \<open>Slot \<open>k\<close> of the table stores the address \<open>M\<close> with a learned port.\<close>

definition holds :: "LookupTable \<Rightarrow> nat \<Rightarrow> MacAddress \<Rightarrow> bool" where
  "holds lt k M = (k < NBR_ENTRIES \<and> mac (table lt ! k) = M \<and> ifc_num (table lt ! k) \<noteq> IF_NO_INIT)"

definition table_wf :: "LookupTable \<Rightarrow> bool" where
  "table_wf lt =
     (length (table lt) = NBR_ENTRIES \<and> nbr_position lt = int NBR_ENTRIES \<and>
      0 \<le> current_position lt \<and> current_position lt < int NBR_ENTRIES \<and>
      (\<forall>k < NBR_ENTRIES. length (mac (table lt ! k)) = MAC_ADDR_SIZE))"

definition unique_macs :: "LookupTable \<Rightarrow> bool" where
  "unique_macs lt =
     (\<forall>i < NBR_ENTRIES. \<forall>j < NBR_ENTRIES.
        ifc_num (table lt ! i) \<noteq> IF_NO_INIT \<and> ifc_num (table lt ! j) \<noteq> IF_NO_INIT \<and>
        mac (table lt ! i) = mac (table lt ! j) \<longrightarrow> i = j)"

definition table_inv :: "LookupTable \<Rightarrow> bool" where
  "table_inv lt = (table_wf lt \<and> unique_macs lt)"

text \<open>The 802.1Q test of \<^verbatim>\<open>parse_frame\<close>: \<^verbatim>\<open>ntohs (header.tag) & 0xFFFF\<close> is \<open>0x8100\<close>.\<close>

definition has_qtag :: "uint8_t list \<Rightarrow> bool" where
  "has_qtag frame = (ntohs [frame ! 12, frame ! 13] AND 0xFFFF = ETH_802_1Q_TAG)"

text \<open>
  Sample inputs: the interfaces that \<^verbatim>\<open>main\<close> sets up for a command line (none when it
  exits with 1), two unicast addresses, the broadcast address, an EtherType with four
  bytes of payload, and an EtherType with 14 bytes of payload.
\<close>

definition ports_of :: "string list \<Rightarrow> Interface list" where
  "ports_of args = (case main_ports scan_digits args of Inl rc \<Rightarrow> [] | Inr gifc \<Rightarrow> gifc)"

definition mac_A :: MacAddress where "mac_A = [0x00, 0x11, 0x22, 0xAA, 0xBB, 0xCC]"
definition mac_B :: MacAddress where "mac_B = [0x00, 0xAA, 0x88, 0x66, 0x44, 0x22]"
definition mac_bcast :: MacAddress where "mac_bcast = [0xFF, 0xFF, 0xFF, 0xFF, 0xFF, 0xFF]"

definition ipv4_payload :: "uint8_t list" where
  "ipv4_payload = [0x08, 0x00, 1, 2, 3, 4]"

definition payload_14 :: "uint8_t list" where
  "payload_14 = [0x08, 0x00, 1, 2, 3, 4, 5, 6, 7, 8, 9, 10, 11, 12, 13, 14]"

text \<open>
  The VLAN ID that a tagged frame carries: the low 12 bits of the TCI, the two bytes behind
  the TPID. The program itself never reads the TCI.
\<close>

definition qtag_vid :: "uint8_t list \<Rightarrow> uint16_t" where
  "qtag_vid frame = ntohs [frame ! 14, frame ! 15] AND 0x0FFF"

text \<open>
  A token that makes the parser give up: \<^verbatim>\<open>sscanf\<close> does not return 1, or the number read
  exceeds \<open>MAX_VLANS\<close>.
\<close>

definition bad_vid :: "scanner \<Rightarrow> string \<Rightarrow> bool" where
  "bad_vid scan tok = (case scan tok of None \<Rightarrow> True | Some v \<Rightarrow> MAX_VLANS < v)"

text \<open>
  A VID as the command line gives it: a non-empty text of decimal digits whose number
  fits an \<^verbatim>\<open>unsigned int\<close> of 32 bits, and that number. \<^verbatim>\<open>sscanf\<close> with \<^verbatim>\<open>"%u"\<close> converts such
  a text exactly; \<open>converts_exactly\<close> says so of the parameter \<open>scan\<close> and says nothing
  about any other text.
\<close>

definition decimal :: "string \<Rightarrow> nat" where
  "decimal s = scan_digits_from 0 s"

definition plain_number :: "string \<Rightarrow> bool" where
  "plain_number s = (s \<noteq> [] \<and> list_all (\<lambda>c. digit_of c \<noteq> None) s \<and> decimal s < 2 ^ 32)"

definition converts_exactly :: "scanner \<Rightarrow> bool" where
  "converts_exactly scan = (\<forall>s. plain_number s \<longrightarrow> scan s = Some (decimal s))"

text \<open>
  The grammar of port specifications in the words of the specification (section 6), to
  compare the parser with: \<^verbatim>\<open>VID\<close> is a decimal integer in 0..4092, \<^verbatim>\<open>VIDLIST\<close> is
  \<^verbatim>\<open>VID (',' VID)*\<close> (at most 4092 of them), \<^verbatim>\<open>MEMBERSHIP\<close> is \<^verbatim>\<open>'T' ':' VIDLIST\<close> or
  \<^verbatim>\<open>'U' ':' VID\<close>, \<^verbatim>\<open>NAME\<close> is a non-empty string without an opening bracket, and
  \<^verbatim>\<open>PORTSPEC\<close> is \<^verbatim>\<open>NAME\<close> or \<^verbatim>\<open>NAME '[' MEMBERSHIP ']'\<close>. \<open>split_commas\<close> gives the
  pieces between the commas, empty ones included.
\<close>

definition spec_VID :: "string \<Rightarrow> bool" where
  "spec_VID s = (s \<noteq> [] \<and> list_all (\<lambda>c. digit_of c \<noteq> None) s \<and> scan_digits_from 0 s \<le> 4092)"

fun split_commas :: "string \<Rightarrow> string \<Rightarrow> string list" where
  "split_commas cur [] = [cur]"
| "split_commas cur (c # cs) =
     (if c = CHR '','' then cur # split_commas [] cs else split_commas (cur @ [c]) cs)"

definition spec_VIDLIST :: "string \<Rightarrow> bool" where
  "spec_VIDLIST s = (list_all spec_VID (split_commas [] s) \<and> length (split_commas [] s) \<le> 4092)"

definition spec_MEMBERSHIP :: "string \<Rightarrow> bool" where
  "spec_MEMBERSHIP s =
     (case s of
        c # d # rest \<Rightarrow>
          d = CHR '':'' \<and> ((c = CHR ''T'' \<and> spec_VIDLIST rest) \<or> (c = CHR ''U'' \<and> spec_VID rest))
      | _ \<Rightarrow> False)"

definition spec_NAME :: "string \<Rightarrow> bool" where
  "spec_NAME s = (s \<noteq> [] \<and> CHR ''['' \<notin> set s)"

definition spec_PORTSPEC :: "string \<Rightarrow> bool" where
  "spec_PORTSPEC s =
     (spec_NAME s \<or>
      (let name = takeWhile (\<lambda>c. c \<noteq> CHR ''['') s; rest = dropWhile (\<lambda>c. c \<noteq> CHR ''['') s
       in spec_NAME name \<and> rest \<noteq> [] \<and> tl rest \<noteq> [] \<and> last rest = CHR '']'' \<and>
          spec_MEMBERSHIP (butlast (tl rest))))"

section \<open>The learning table: lemmas\<close>

lemma mac_copy_id: "length m = MAC_ADDR_SIZE \<Longrightarrow> mac_copy m = m"
  unfolding mac_copy_def by (rule nth_equalityI) auto

lemma mac_copy_empty: "mac_copy empty_mac = empty_mac"
  by (rule mac_copy_id) (simp add: empty_mac_def MAC_ADDR_SIZE_def)

lemma mac_match_eq:
  "length a = MAC_ADDR_SIZE \<Longrightarrow> length b = MAC_ADDR_SIZE \<Longrightarrow> mac_match a b \<longleftrightarrow> a = b"
  unfolding mac_match_def list_all_iff by (auto intro: nth_equalityI)

lemma foldl_update_upt:
  "n \<le> length t \<Longrightarrow> foldl (\<lambda>t i. t[i := g (t ! i)]) t [0..<n] = map g (take n t) @ drop n t"
proof (induction n)
  case 0
  then show ?case by simp
next
  case (Suc n)
  then have n: "n < length t" by simp
  have "foldl (\<lambda>t i. t[i := g (t ! i)]) t [0..<Suc n] =
        (map g (take n t) @ drop n t)[n := g ((map g (take n t) @ drop n t) ! n)]"
    using Suc by simp
  also have "(map g (take n t) @ drop n t) ! n = t ! n"
    using n by (simp add: nth_append)
  also have "(map g (take n t) @ drop n t)[n := g (t ! n)] = map g (take (Suc n) t) @ drop (Suc n) t"
    using n by (simp add: list_update_append take_Suc_conv_app_nth flip: Cons_nth_drop_Suc)
  finally show ?case .
qed

lemma table_lookup_table_init:
  assumes "length (table lt) = NBR_ENTRIES"
  shows "table (lookup_table_init lt) = map (\<lambda>e. e\<lparr>mac := empty_mac, ifc_num := IF_NO_INIT\<rparr>) (table lt)"
proof -
  let ?g = "\<lambda>e. e\<lparr>mac := mac_copy empty_mac, ifc_num := IF_NO_INIT\<rparr>"
  have "foldl (\<lambda>t i. t[i := ?g (t ! i)]) (table lt) [0..<NBR_ENTRIES] =
        map ?g (take NBR_ENTRIES (table lt)) @ drop NBR_ENTRIES (table lt)"
    using assms by (intro foldl_update_upt) simp
  then show ?thesis
    using assms by (simp add: lookup_table_init_def mac_copy_empty)
qed

lemma search_loop_find:
  "0 \<le> i \<Longrightarrow>
   search_loop lt M f i =
     (case find (live lt M) [nat i..<nat (nbr_position lt)] of
        None \<Rightarrow> (- 1, f)
      | Some k \<Rightarrow> (int k, f\<lparr>ifc_num := ifc_num (table lt ! k), mac := mac_copy (mac (table lt ! k))\<rparr>))"
proof (induction lt M f i rule: search_loop.induct)
  case (1 lt M f i)
  show ?case
  proof (cases "i < nbr_position lt")
    case False
    then have "[nat i..<nat (nbr_position lt)] = []" by simp
    with False show ?thesis by (subst search_loop.simps) simp
  next
    case True
    with 1(2) have "nat i < nat (nbr_position lt)" by simp
    then have "[nat i..<nat (nbr_position lt)] = nat i # [Suc (nat i)..<nat (nbr_position lt)]"
      by (rule upt_conv_Cons)
    moreover have "Suc (nat i) = nat (i + 1)" using 1(2) by simp
    ultimately have fnd: "find (live lt M) [nat i..<nat (nbr_position lt)] =
        (if live lt M (nat i) then Some (nat i) else find (live lt M) [nat (i + 1)..<nat (nbr_position lt)])"
      by (simp only: find.simps)
    show ?thesis
    proof (cases "live lt M (nat i)")
      case live: True
      then have "search_loop lt M f i =
          (i, f\<lparr>ifc_num := ifc_num (table lt ! nat i), mac := mac_copy (mac (table lt ! nat i))\<rparr>)"
        using True by (subst search_loop.simps) (simp add: live_def)
      then show ?thesis using live 1(2) by (simp only: fnd) simp
    next
      case dead: False
      then have "search_loop lt M f i = search_loop lt M f (i + 1)"
        using True by (subst search_loop.simps) (auto simp add: live_def)
      also have "\<dots> = (case find (live lt M) [nat (i + 1)..<nat (nbr_position lt)] of
            None \<Rightarrow> (- 1, f)
          | Some k \<Rightarrow> (int k, f\<lparr>ifc_num := ifc_num (table lt ! k), mac := mac_copy (mac (table lt ! k))\<rparr>))"
      proof -
        have pre: "\<not> (mac_match (mac (table lt ! nat i)) M \<and> ifc_num (table lt ! nat i) \<noteq> IF_NO_INIT)"
          using dead by (simp add: live_def)
        have "0 \<le> i + 1" using 1(2) by simp
        from 1(1) [OF True pre this] show ?thesis .
      qed
      finally show ?thesis using dead by (simp only: fnd) simp
    qed
  qed
qed

lemma search_lookup_table_find:
  "search_lookup_table lt M f =
     (case find (live lt M) [0..<nat (nbr_position lt)] of
        None \<Rightarrow> (- 1, f)
      | Some k \<Rightarrow> (int k, f\<lparr>ifc_num := ifc_num (table lt ! k), mac := mac_copy (mac (table lt ! k))\<rparr>))"
  unfolding search_lookup_table_def using search_loop_find [of 0 lt M f] by simp

lemma live_iff_holds:
  assumes "table_wf lt" "length M = MAC_ADDR_SIZE" "k < NBR_ENTRIES"
  shows "live lt M k \<longleftrightarrow> holds lt k M"
  using assms by (auto simp: live_def holds_def table_wf_def mac_match_eq)

lemma find_holds:
  assumes inv: "table_inv lt" and len: "length M = MAC_ADDR_SIZE" and h: "holds lt k M"
  shows "find (live lt M) [0..<nat (nbr_position lt)] = Some k"
proof -
  have wf: "table_wf lt" and uq: "unique_macs lt" using inv by (simp_all add: table_inv_def)
  have k: "k < NBR_ENTRIES" using h by (simp add: holds_def)
  have n: "nat (nbr_position lt) = NBR_ENTRIES" using wf by (simp add: table_wf_def)
  have lk: "live lt M k" using live_iff_holds [OF wf len k] h by simp
  have first: "\<not> live lt M j" if "j < k" for j
  proof
    assume "live lt M j"
    moreover have j: "j < NBR_ENTRIES" using that k by simp
    ultimately have "holds lt j M" using live_iff_holds [OF wf len j] by simp
    with h j k uq have "j = k" unfolding unique_macs_def holds_def by blast
    with that show False by simp
  qed
  show ?thesis
    unfolding find_Some_iff n
    by (rule exI [of _ k]) (use k lk first in auto)
qed

lemma find_absent:
  assumes wf: "table_wf lt" and len: "length M = MAC_ADDR_SIZE" and h: "\<forall>k. \<not> holds lt k M"
  shows "find (live lt M) [0..<nat (nbr_position lt)] = None"
proof -
  have n: "nat (nbr_position lt) = NBR_ENTRIES" using wf by (simp add: table_wf_def)
  show ?thesis
    unfolding find_None_iff n using live_iff_holds [OF wf len] h by auto
qed

lemma find_cases:
  assumes wf: "table_wf lt" and len: "length M = MAC_ADDR_SIZE"
  obtains (absent) "find (live lt M) [0..<nat (nbr_position lt)] = None" "\<forall>k. \<not> holds lt k M"
  | (present) k where "find (live lt M) [0..<nat (nbr_position lt)] = Some k" "holds lt k M"
proof (cases "find (live lt M) [0..<nat (nbr_position lt)]")
  case None
  have n: "nat (nbr_position lt) = NBR_ENTRIES" using wf by (simp add: table_wf_def)
  have "\<not> holds lt k M" for k
  proof (cases "k < NBR_ENTRIES")
    case True
    with None n have "\<not> live lt M k" by (auto simp: find_None_iff)
    then show ?thesis using live_iff_holds [OF wf len True] by simp
  qed (simp add: holds_def)
  with None show ?thesis by (intro absent) auto
next
  case (Some k)
  have n: "nat (nbr_position lt) = NBR_ENTRIES" using wf by (simp add: table_wf_def)
  from Some n have "k < NBR_ENTRIES" "live lt M k" by (auto simp: find_Some_iff)
  then have "holds lt k M" using live_iff_holds [OF wf len] by simp
  with Some show ?thesis by (intro present)
qed

lemma save_to_table_present:
  assumes "find (live lt (mac new_if)) [0..<nat (nbr_position lt)] = Some k"
  shows "save_to_table lt new_if =
     (if ifc_num (table lt ! k) = ifc_num new_if then (- 1, lt)
      else (0, lt\<lparr>table := (table lt)[k := (table lt ! k)\<lparr>ifc_num := ifc_num new_if\<rparr>]\<rparr>))"
  using assms by (simp add: save_to_table_def search_lookup_table_find)

lemma save_to_table_absent:
  assumes "find (live lt (mac new_if)) [0..<nat (nbr_position lt)] = None"
  shows "save_to_table lt new_if =
     (0, lt\<lparr>table := (table lt)[nat (current_position lt) :=
                 (table lt ! nat (current_position lt))\<lparr>ifc_num := ifc_num new_if, mac := mac_copy (mac new_if)\<rparr>],
            current_position := (current_position lt + 1) mod nbr_position lt\<rparr>)"
  using assms by (simp add: save_to_table_def search_lookup_table_find Let_def)

lemma table_inv_init:
  assumes "length (table lt) = NBR_ENTRIES"
  shows "table_inv (lookup_table_init lt)"
proof -
  have t: "table (lookup_table_init lt) = map (\<lambda>e. e\<lparr>mac := empty_mac, ifc_num := IF_NO_INIT\<rparr>) (table lt)"
    using assms by (rule table_lookup_table_init)
  have "nbr_position (lookup_table_init lt) = int NBR_ENTRIES" "current_position (lookup_table_init lt) = 0"
    by (simp_all add: lookup_table_init_def)
  then show ?thesis
    using assms unfolding table_inv_def table_wf_def unique_macs_def t
    by (simp add: empty_mac_def MAC_ADDR_SIZE_def NBR_ENTRIES_def)
qed

lemma table_inv_save:
  assumes inv: "table_inv lt" and len: "length (mac new_if) = MAC_ADDR_SIZE"
  shows "table_inv (snd (save_to_table lt new_if))"
proof -
  have wf: "table_wf lt" and uq: "unique_macs lt" using inv by (simp_all add: table_inv_def)
  from wf len show ?thesis
  proof (cases rule: find_cases)
    case absent
    let ?c = "nat (current_position lt)"
    have c: "?c < NBR_ENTRIES" using wf by (auto simp: table_wf_def)
    have s: "snd (save_to_table lt new_if) =
        lt\<lparr>table := (table lt)[?c := (table lt ! ?c)\<lparr>ifc_num := ifc_num new_if, mac := mac new_if\<rparr>],
           current_position := (current_position lt + 1) mod int NBR_ENTRIES\<rparr>"
      using wf len by (simp add: save_to_table_absent [OF absent(1)] mac_copy_id table_wf_def)
    have "table_wf (snd (save_to_table lt new_if))"
      unfolding s using wf len by (auto simp: table_wf_def nth_list_update NBR_ENTRIES_def)
    moreover have "unique_macs (snd (save_to_table lt new_if))"
      unfolding s unique_macs_def
    proof (intro allI impI, goal_cases)
      case (1 i j)
      have len_t: "length (table lt) = NBR_ENTRIES" using wf by (simp add: table_wf_def)
      show ?case
      proof (cases "i = ?c"; cases "j = ?c")
        assume "i = ?c" "j \<noteq> ?c"
        with 1 len_t c have "holds lt j (mac new_if)" by (simp add: holds_def nth_list_update)
        with absent(2) show ?thesis by simp
      next
        assume "i \<noteq> ?c" "j = ?c"
        with 1 len_t c have "holds lt i (mac new_if)" by (simp add: holds_def nth_list_update)
        with absent(2) show ?thesis by simp
      next
        assume "i \<noteq> ?c" "j \<noteq> ?c"
        with 1 uq show ?thesis unfolding unique_macs_def by (simp add: nth_list_update)
      qed simp
    qed
    ultimately show ?thesis by (simp add: table_inv_def)
  next
    case (present k)
    have k: "k < NBR_ENTRIES" and lv: "ifc_num (table lt ! k) \<noteq> IF_NO_INIT"
      using present(2) by (simp_all add: holds_def)
    have len_t: "length (table lt) = NBR_ENTRIES" using wf by (simp add: table_wf_def)
    show ?thesis
    proof (cases "ifc_num (table lt ! k) = ifc_num new_if")
      case True
      then show ?thesis using inv by (simp add: save_to_table_present [OF present(1)])
    next
      case False
      then have s: "snd (save_to_table lt new_if) =
          lt\<lparr>table := (table lt)[k := (table lt ! k)\<lparr>ifc_num := ifc_num new_if\<rparr>]\<rparr>"
        by (simp add: save_to_table_present [OF present(1)])
      have "table_wf (snd (save_to_table lt new_if))"
        unfolding s using wf k by (auto simp: table_wf_def nth_list_update)
      moreover have "unique_macs (snd (save_to_table lt new_if))"
        unfolding s unique_macs_def
      proof (intro allI impI, goal_cases)
        case (1 i j)
        then have "ifc_num (table lt ! i) \<noteq> IF_NO_INIT" "ifc_num (table lt ! j) \<noteq> IF_NO_INIT"
          "mac (table lt ! i) = mac (table lt ! j)"
          using len_t lv k by (auto simp: nth_list_update split: if_splits)
        with 1 uq show ?case unfolding unique_macs_def by blast
      qed
      ultimately show ?thesis by (simp add: table_inv_def)
    qed
  qed
qed

section \<open>The forwarding engine: lemmas\<close>

lemma length_src_header: "length (src (read_header frame)) = MAC_ADDR_SIZE"
  and length_dst_header: "length (dst (read_header frame)) = MAC_ADDR_SIZE"
  by (simp_all add: read_header_def MAC_ADDR_SIZE_def)

lemma src_header_0: "src (read_header frame) ! 0 = frame ! 6"
  and dst_header_0: "dst (read_header frame) ! 0 = frame ! 0"
  by (simp_all add: read_header_def upt_rec_numeral)

lemma parse_frame_short:
  "length frame < 14 \<Longrightarrow>
   parse_frame gifc ifc frame lt = ([], if nbr_position lt = 0 then lookup_table_init lt else lt)"
  by (simp add: parse_frame_def)

lemma parse_frame_multicast_src:
  "14 \<le> length frame \<Longrightarrow> (frame ! 6) AND 1 \<noteq> 0 \<Longrightarrow>
   parse_frame gifc ifc frame lt = ([], if nbr_position lt = 0 then lookup_table_init lt else lt)"
  by (simp add: parse_frame_def Let_def mac_copy_id length_src_header src_header_0)

lemma parse_frame_learns:
  "14 \<le> length frame \<Longrightarrow> (frame ! 6) AND 1 = 0 \<Longrightarrow>
   snd (parse_frame gifc ifc frame lt) =
     snd (save_to_table (if nbr_position lt = 0 then lookup_table_init lt else lt)
            (zero_Interface\<lparr>mac := src (read_header frame), ifc_num := ifc_num ifc\<rparr>))"
  by (simp add: parse_frame_def Let_def mac_copy_id length_src_header src_header_0 split: prod.split)

lemma table_inv_parse_frame:
  assumes "table_inv lt \<or> lt = lookupTable"
  shows "table_inv (snd (parse_frame gifc ifc frame lt))"
proof -
  let ?lt = "if nbr_position lt = 0 then lookup_table_init lt else lt"
  have r: "table_inv ?lt"
    using assms table_inv_init [of lt]
    by (auto simp: lookupTable_def table_inv_def table_wf_def NBR_ENTRIES_def)
  consider "length frame < 14" | "14 \<le> length frame" "(frame ! 6) AND 1 \<noteq> 0"
    | "14 \<le> length frame" "(frame ! 6) AND 1 = 0" by linarith
  then show ?thesis
  proof cases
    case 1
    then show ?thesis using r by (simp add: parse_frame_short)
  next
    case 2
    then show ?thesis using r by (simp add: parse_frame_multicast_src)
  next
    case 3
    have "table_inv (snd (save_to_table ?lt (zero_Interface\<lparr>mac := src (read_header frame), ifc_num := ifc_num ifc\<rparr>)))"
      by (rule table_inv_save [OF r]) (simp add: length_src_header)
    then show ?thesis using 3 by (simp only: parse_frame_learns)
  qed
qed

lemma run_table_inv:
  assumes "run gifc inputs lt0 = Some (out, lt)" and "table_inv lt0 \<or> lt0 = lookupTable"
  shows "(inputs = [] \<and> lt = lt0) \<or> table_inv lt"
  using assms
proof (induction inputs arbitrary: lt0 out)
  case Nil
  then show ?case by simp
next
  case (Cons a inputs)
  obtain p frame where a: "a = (p, frame)" by (cases a)
  from Cons.prems(1) obtain out1 lt1 out2 where
    h: "handle_frame gifc p frame lt0 = Some (out1, lt1)" and
    r: "run gifc inputs lt1 = Some (out2, lt)"
    by (auto simp: a split: option.splits)
  from h have "lt1 = snd (parse_frame gifc (gifc ! (unat p - 1)) frame lt0)"
    by (auto simp: handle_frame_def split: if_splits)
  with Cons.prems(2) have inv1: "table_inv lt1" by (simp add: table_inv_parse_frame)
  from Cons.IH [OF r] inv1 show ?case by auto
qed

lemma dst_read_header: "6 \<le> length frame \<Longrightarrow> dst (read_header frame) = take 6 frame"
  unfolding read_header_def by (auto intro!: nth_equalityI)

lemma src_read_header: "12 \<le> length frame \<Longrightarrow> src (read_header frame) = take 6 (drop 6 frame)"
  unfolding read_header_def by (auto intro!: nth_equalityI)

lemma tag_read_header: "tag (read_header frame) = [frame ! 12, frame ! 13]"
  by (simp add: read_header_def)

lemma tagged_frame_eq:
  assumes "12 \<le> length frame"
  shows "tagged_frame frame (read_header frame) = take 12 frame @ [0x81, 0x00, 0x00, 0x01] @ drop 12 frame"
proof (rule nth_equalityI)
  show "length (tagged_frame frame (read_header frame)) = length (take 12 frame @ [0x81, 0x00, 0x00, 0x01] @ drop 12 frame)"
    using assms by (simp add: tagged_frame_def)
next
  fix k assume "k < length (tagged_frame frame (read_header frame))"
  then have k: "k < length frame + 4" by (simp add: tagged_frame_def)
  have tg: "htons 0x8100 @ htons 0x001 = [0x81, 0x00, 0x00, 0x01]" by (simp add: htons_def)
  consider "k < 6" | "6 \<le> k" "k < 12" | "12 \<le> k" "k < 16" | "16 \<le> k" by linarith
  then show "tagged_frame frame (read_header frame) ! k = (take 12 frame @ [0x81, 0x00, 0x00, 0x01] @ drop 12 frame) ! k"
  proof cases
    case 1
    then show ?thesis using assms k by (simp add: tagged_frame_def dst_read_header nth_append)
  next
    case 2
    then show ?thesis using assms k by (simp add: tagged_frame_def src_read_header nth_append)
  next
    case 3
    then have "k = 12 \<or> k = 13 \<or> k = 14 \<or> k = 15" by linarith
    then show ?thesis using assms k unfolding tagged_frame_def tg by (auto simp: nth_append)
  next
    case 4
    then have "k - 12 - 4 + 12 = k - 4" by simp
    with 4 show ?thesis using assms k unfolding tagged_frame_def tg
      by (simp add: nth_append min_def)
  qed
qed

lemma untagged_frame_eq:
  assumes "12 \<le> length frame"
  shows "untagged_frame frame (read_header frame) = take (length frame - 4) (take 12 frame @ drop 16 frame)"
proof (rule nth_equalityI)
  show "length (untagged_frame frame (read_header frame)) = length (take (length frame - 4) (take 12 frame @ drop 16 frame))"
    using assms by (auto simp: untagged_frame_def min_def)
next
  fix k assume "k < length (untagged_frame frame (read_header frame))"
  then have k: "k < length frame - 4" by (simp add: untagged_frame_def)
  consider "k < 6" | "6 \<le> k" "k < 12" | "12 \<le> k" by linarith
  then show "untagged_frame frame (read_header frame) ! k = take (length frame - 4) (take 12 frame @ drop 16 frame) ! k"
  proof cases
    case 1
    then show ?thesis using assms k by (simp add: untagged_frame_def dst_read_header nth_append)
  next
    case 2
    then show ?thesis using assms k by (simp add: untagged_frame_def src_read_header nth_append)
  next
    case 3
    have "take (length frame - 4) (take 12 frame @ drop 16 frame) ! k = (take 12 frame @ drop 16 frame) ! k"
      using k by (intro nth_take) simp
    also have "\<dots> = drop 16 frame ! (k - 12)"
      using 3 assms by (simp add: nth_append)
    also have "\<dots> = frame ! (16 + (k - 12))"
      using k 3 by (intro nth_drop) simp
    also have "16 + (k - 12) = k + 4" using 3 by simp
    finally show ?thesis using 3 k by (simp add: untagged_frame_def)
  qed
qed

lemma msg_frame_forward_to [simp]: "msg_frame (forward_to d frame) = frame"
  by (simp add: msg_frame_def forward_to_def htons_def)

lemma ntohs_htons: "ntohs (htons w) = w"
  unfolding ntohs_def htons_def
  by (rule bit_word_eqI) (auto simp: bit_simps)

lemma msg_port_forward_to [simp]: "msg_port (forward_to d frame) = ifc_num d"
proof -
  have "take 2 (drop 2 (forward_to d frame)) = htons (ifc_num d)"
    by (simp add: forward_to_def htons_def)
  then show ?thesis by (simp add: msg_port_def ntohs_htons)
qed

lemma search_holds:
  assumes "table_inv lt" "length M = MAC_ADDR_SIZE" "holds lt k M"
  shows "search_lookup_table lt M f = (int k, f\<lparr>ifc_num := ifc_num (table lt ! k), mac := M\<rparr>)"
proof -
  have "table_wf lt" using assms(1) by (simp add: table_inv_def)
  moreover have "k < NBR_ENTRIES" "mac (table lt ! k) = M" using assms(3) by (simp_all add: holds_def)
  ultimately have "mac_copy (mac (table lt ! k)) = M"
    using assms(2) by (simp add: mac_copy_id)
  then show ?thesis
    by (simp add: search_lookup_table_find find_holds [OF assms])
qed

lemma search_absent:
  assumes "table_wf lt" "length M = MAC_ADDR_SIZE" "\<forall>k. \<not> holds lt k M"
  shows "search_lookup_table lt M f = (- 1, f)"
  by (simp add: search_lookup_table_find find_absent [OF assms])

lemma search_uninitialised:
  "nbr_position lt = 0 \<Longrightarrow> search_lookup_table lt M f = (- 1, f)"
  by (simp add: search_lookup_table_find)

lemma not_holds_init:
  assumes "length (table lt) = NBR_ENTRIES"
  shows "\<not> holds (lookup_table_init lt) k M"
  using assms by (simp add: holds_def table_lookup_table_init)

lemma snd_save_absent:
  assumes "table_wf lt" "length (mac n) = MAC_ADDR_SIZE" "\<forall>k. \<not> holds lt k (mac n)"
  shows "snd (save_to_table lt n) =
     lt\<lparr>table := (table lt)[nat (current_position lt) :=
            (table lt ! nat (current_position lt))\<lparr>ifc_num := ifc_num n, mac := mac n\<rparr>],
        current_position := (current_position lt + 1) mod int NBR_ENTRIES\<rparr>"
  using assms by (simp add: save_to_table_absent [OF find_absent [OF assms]] mac_copy_id table_wf_def)

lemma holds_after_save:
  assumes wf: "table_wf lt" and len: "length (mac n) = MAC_ADDR_SIZE"
    and h: "holds (snd (save_to_table lt n)) k M"
  shows "holds lt k M \<or> M = mac n"
  using wf len
proof (cases rule: find_cases)
  case absent
  have c: "nat (current_position lt) < length (table lt)" using wf by (auto simp: table_wf_def)
  from h show ?thesis
    unfolding snd_save_absent [OF wf len absent(2)] using c
    by (auto simp: holds_def nth_list_update split: if_splits)
next
  case (present j)
  have j: "j < length (table lt)" "mac (table lt ! j) = mac n"
    using present(2) wf by (simp_all add: holds_def table_wf_def)
  from h show ?thesis
    unfolding save_to_table_present [OF present(1)] using j
    by (auto simp: holds_def nth_list_update split: if_splits)
qed

lemma lookup_after_learn:
  assumes inv: "table_inv lt" and len: "length (mac n) = MAC_ADDR_SIZE" and p: "ifc_num n \<noteq> IF_NO_INIT"
  shows "\<exists>k. search_lookup_table (snd (save_to_table lt n)) (mac n) f = (int k, f\<lparr>ifc_num := ifc_num n, mac := mac n\<rparr>)"
proof -
  have wf: "table_wf lt" using inv by (simp add: table_inv_def)
  have inv': "table_inv (snd (save_to_table lt n))" by (rule table_inv_save [OF inv len])
  have "\<exists>k. holds (snd (save_to_table lt n)) k (mac n) \<and> ifc_num (table (snd (save_to_table lt n)) ! k) = ifc_num n"
    using wf len
  proof (cases rule: find_cases)
    case absent
    have c: "nat (current_position lt) < NBR_ENTRIES" "length (table lt) = NBR_ENTRIES"
      using wf by (auto simp: table_wf_def)
    show ?thesis
      unfolding snd_save_absent [OF wf len absent(2)]
      by (rule exI [of _ "nat (current_position lt)"]) (use c p in \<open>simp add: holds_def\<close>)
  next
    case (present j)
    have j: "j < NBR_ENTRIES" "length (table lt) = NBR_ENTRIES" "mac (table lt ! j) = mac n"
      using present(2) wf by (simp_all add: holds_def table_wf_def)
    show ?thesis
      unfolding save_to_table_present [OF present(1)]
      by (rule exI [of _ j]) (use j p present(2) in \<open>auto simp: holds_def\<close>)
  qed
  then obtain k where k: "holds (snd (save_to_table lt n)) k (mac n)"
    "ifc_num (table (snd (save_to_table lt n)) ! k) = ifc_num n" by blast
  from search_holds [OF inv' len k(1), of f] k(2) show ?thesis by auto
qed

lemma parse_frame_unfold:
  assumes "14 \<le> length frame" "(frame ! 6) AND 1 = 0"
  shows "parse_frame gifc ifc frame lt =
     (let lt' = snd (save_to_table (if nbr_position lt = 0 then lookup_table_init lt else lt)
                  (zero_Interface\<lparr>mac := src (read_header frame), ifc_num := ifc_num ifc\<rparr>));
          r = (if (frame ! 0) AND 1 = 0
               then search_lookup_table lt' (dst (read_header frame)) zero_Interface
               else (- 1, zero_Interface))
      in (if fst r = - 1 then
            (if has_qtag frame then parse_tagged_frame gifc ifc frame (read_header frame)
             else if untagged_vlan ifc \<noteq> NO_VLAN then parse_untagged_frame gifc ifc frame (read_header frame)
             else [])
          else [forward_to (snd r) frame], lt'))"
  using assms
  by (simp add: parse_frame_def Let_def has_qtag_def tag_read_header mac_copy_id
      length_src_header length_dst_header src_header_0 dst_header_0 case_prod_beta)

lemmas parse_eval = main_ports_def parse_vlan_args_def parse_tagged_def parse_untagged_def
  strtok_def scan_digits_def digit_of_def zero_Interface_def Let_def ports_of_def

lemma ports_U2_T2:
  "ports_of [''eth0[U:2]'', ''eth1[T:2]''] =
     [\<lparr>mac = replicate MAC_ADDR_SIZE 0, ifc_num = 1, ifc_name = ''eth0'',
       tagged_vlans = (replicate (MAX_VLANS + 1) 0)[0 := NO_VLAN], untagged_vlan = 2\<rparr>,
      \<lparr>mac = replicate MAC_ADDR_SIZE 0, ifc_num = 2, ifc_name = ''eth1'',
       tagged_vlans = (replicate (MAX_VLANS + 1) 0)[0 := 2, 1 := NO_VLAN], untagged_vlan = NO_VLAN\<rparr>]"
  by (simp add: parse_eval MAX_VLANS_def NO_VLAN_def)

lemmas frame_eval = mac_A_def mac_B_def mac_bcast_def ipv4_payload_def has_qtag_def ntohs_def
  ETH_802_1Q_TAG_def NO_VLAN_def MAX_VLANS_def

lemma flood_U2_T2:
  "fst (parse_frame (ports_of [''eth0[U:2]'', ''eth1[T:2]'']) (ports_of [''eth0[U:2]'', ''eth1[T:2]''] ! 0)
         (mac_bcast @ mac_A @ ipv4_payload) lt) =
   [[0, 26, 0, 2] @ mac_bcast @ mac_A @ [0x81, 0x00, 0x00, 0x01] @ ipv4_payload]"
proof -
  let ?f = "mac_bcast @ mac_A @ ipv4_payload"
  have len: "14 \<le> length ?f" "12 \<le> length ?f" and uni: "(?f ! 6) AND 1 = 0" and multi: "(?f ! 0) AND 1 \<noteq> 0"
    and nq: "\<not> has_qtag ?f"
    by (simp_all add: frame_eval)
  have t: "tagged_frame ?f (read_header ?f) = mac_bcast @ mac_A @ [0x81, 0x00, 0x00, 0x01] @ ipv4_payload"
    unfolding tagged_frame_eq [OF len(2)] by (simp add: frame_eval)
  show ?thesis
    unfolding parse_frame_unfold [OF len(1) uni] ports_U2_T2 using multi nq
    by (simp add: Let_def t forward_to_def htons_def) (simp add: frame_eval)
qed

section \<open>Reachable tables and sample runs: lemmas\<close>

lemma nbr_position_init: "nbr_position (lookup_table_init lt) = int NBR_ENTRIES"
  and current_position_init: "current_position (lookup_table_init lt) = 0"
  by (simp_all add: lookup_table_init_def)

lemma search_init:
  assumes "length (table lt) = NBR_ENTRIES"
  shows "search_lookup_table (lookup_table_init lt) M f = (- 1, f)"
proof -
  have "find (live (lookup_table_init lt) M) [0..<nat (nbr_position (lookup_table_init lt))] = None"
    unfolding find_None_iff using assms
    by (auto simp: live_def table_lookup_table_init nbr_position_init)
  then show ?thesis by (simp add: search_lookup_table_find)
qed

lemma length_table_lookupTable: "length (table lookupTable) = NBR_ENTRIES"
  and nbr_position_lookupTable: "nbr_position lookupTable = 0"
  and current_position_lookupTable: "current_position lookupTable = 0"
  by (simp_all add: lookupTable_def)

lemma dropped_keeps_table:
  assumes run: "run gifc inputs lookupTable = Some (out, lt)"
    and dropped: "parse_frame gifc ifc frame lt = ([], if nbr_position lt = 0 then lookup_table_init lt else lt)"
  shows "fst (parse_frame gifc ifc frame lt) = [] \<and>
     (inputs \<noteq> [] \<longrightarrow> snd (parse_frame gifc ifc frame lt) = lt) \<and>
     current_position (snd (parse_frame gifc ifc frame lt)) = current_position lt \<and>
     (\<forall>M f. search_lookup_table (snd (parse_frame gifc ifc frame lt)) M f = search_lookup_table lt M f)"
proof -
  from run_table_inv [OF run] consider "inputs = []" "lt = lookupTable" | "table_inv lt" by auto
  then show ?thesis
  proof cases
    case 1
    then show ?thesis
      unfolding dropped
      by (simp add: nbr_position_lookupTable search_init length_table_lookupTable
          search_uninitialised current_position_lookupTable current_position_init)
  next
    case 2
    then have "nbr_position lt \<noteq> 0" by (simp add: table_inv_def table_wf_def NBR_ENTRIES_def)
    then show ?thesis unfolding dropped by simp
  qed
qed

lemma no_empty_parse_frame:
  assumes pre: "(table_inv lt \<and> (\<forall>k. \<not> holds lt k empty_mac)) \<or> lt = lookupTable"
    and src: "14 \<le> length frame \<longrightarrow> take 6 (drop 6 frame) \<noteq> empty_mac"
  shows "table_inv (snd (parse_frame gifc ifc frame lt)) \<and>
     (\<forall>k. \<not> holds (snd (parse_frame gifc ifc frame lt)) k empty_mac)"
proof -
  let ?lt = "if nbr_position lt = 0 then lookup_table_init lt else lt"
  have r: "table_inv ?lt \<and> (\<forall>k. \<not> holds ?lt k empty_mac)"
  proof (cases "lt = lookupTable")
    case True
    then show ?thesis
      by (simp add: nbr_position_lookupTable table_inv_init not_holds_init length_table_lookupTable)
  next
    case False
    with pre have "table_inv lt" "\<forall>k. \<not> holds lt k empty_mac" by simp_all
    moreover from this have "nbr_position lt \<noteq> 0" by (simp add: table_inv_def table_wf_def NBR_ENTRIES_def)
    ultimately show ?thesis by simp
  qed
  have inv: "table_inv (snd (parse_frame gifc ifc frame lt))"
    using pre by (intro table_inv_parse_frame) auto
  consider "length frame < 14" | "14 \<le> length frame" "(frame ! 6) AND 1 \<noteq> 0"
    | "14 \<le> length frame" "(frame ! 6) AND 1 = 0" by linarith
  then have "\<forall>k. \<not> holds (snd (parse_frame gifc ifc frame lt)) k empty_mac"
  proof cases
    case 1
    then show ?thesis using r by (simp add: parse_frame_short)
  next
    case 2
    then show ?thesis using r by (simp add: parse_frame_multicast_src)
  next
    case 3
    let ?n = "zero_Interface\<lparr>mac := src (read_header frame), ifc_num := ifc_num ifc\<rparr>"
    have wf: "table_wf ?lt" using r by (simp add: table_inv_def)
    have len: "length (mac ?n) = MAC_ADDR_SIZE" by (simp add: length_src_header)
    have ne: "mac ?n \<noteq> empty_mac" using 3(1) src by (simp add: src_read_header)
    show ?thesis
    proof (intro allI notI)
      fix k assume "holds (snd (parse_frame gifc ifc frame lt)) k empty_mac"
      then have "holds (snd (save_to_table ?lt ?n)) k empty_mac"
        using 3 by (simp only: parse_frame_learns)
      from holds_after_save [OF wf len this] r ne show False by auto
    qed
  qed
  with inv show ?thesis by simp
qed

lemma run_no_empty:
  assumes "run gifc inputs lt0 = Some (out, lt)"
    and "(table_inv lt0 \<and> (\<forall>k. \<not> holds lt0 k empty_mac)) \<or> lt0 = lookupTable"
    and "\<forall>(p, frame) \<in> set inputs. 14 \<le> length frame \<longrightarrow> take 6 (drop 6 frame) \<noteq> empty_mac"
  shows "(table_inv lt \<and> (\<forall>k. \<not> holds lt k empty_mac)) \<or> lt = lookupTable"
  using assms
proof (induction inputs arbitrary: lt0 out)
  case Nil
  then show ?case by simp
next
  case (Cons a inputs)
  obtain p frame where a: "a = (p, frame)" by (cases a)
  from Cons.prems(1) obtain out1 lt1 out2 where
    h: "handle_frame gifc p frame lt0 = Some (out1, lt1)" and
    r: "run gifc inputs lt1 = Some (out2, lt)"
    by (auto simp: a split: option.splits)
  from h have lt1: "lt1 = snd (parse_frame gifc (gifc ! (unat p - 1)) frame lt0)"
    by (auto simp: handle_frame_def split: if_splits)
  have src: "14 \<le> length frame \<longrightarrow> take 6 (drop 6 frame) \<noteq> empty_mac"
    using Cons.prems(3) by (simp add: a)
  have "table_inv lt1 \<and> (\<forall>k. \<not> holds lt1 k empty_mac)"
    unfolding lt1 by (rule no_empty_parse_frame [OF Cons.prems(2) src])
  then have "(table_inv lt1 \<and> (\<forall>k. \<not> holds lt1 k empty_mac)) \<or> lt1 = lookupTable" by simp
  from Cons.IH [OF r this] Cons.prems(3) show ?case by simp
qed

lemma search_result_live:
  assumes "fst (search_lookup_table lt M f) \<noteq> - 1"
  shows "0 \<le> fst (search_lookup_table lt M f) \<and> fst (search_lookup_table lt M f) < nbr_position lt \<and>
     ifc_num (table lt ! nat (fst (search_lookup_table lt M f))) \<noteq> IF_NO_INIT \<and>
     mac_match (mac (table lt ! nat (fst (search_lookup_table lt M f)))) M"
proof (cases "find (live lt M) [0..<nat (nbr_position lt)]")
  case None
  with assms show ?thesis by (simp add: search_lookup_table_find)
next
  case (Some k)
  then have "k < nat (nbr_position lt)" "live lt M k" by (auto simp: find_Some_iff)
  with Some show ?thesis by (simp add: search_lookup_table_find live_def)
qed

lemma table_inv_init_lookupTable: "table_inv (lookup_table_init lookupTable)"
  by (rule table_inv_init) (rule length_table_lookupTable)

lemma length_table_init_lookupTable: "length (table (lookup_table_init lookupTable)) = NBR_ENTRIES"
  using table_inv_init_lookupTable by (simp add: table_inv_def table_wf_def)

lemma first_learn:
  assumes "length (mac n) = MAC_ADDR_SIZE"
  shows "snd (save_to_table (lookup_table_init lookupTable) n) =
     (lookup_table_init lookupTable)
       \<lparr>table := (table (lookup_table_init lookupTable))[0 :=
            (table (lookup_table_init lookupTable) ! 0)\<lparr>ifc_num := ifc_num n, mac := mac n\<rparr>],
        current_position := 1\<rparr>"
proof -
  have wf: "table_wf (lookup_table_init lookupTable)"
    using table_inv_init_lookupTable by (simp add: table_inv_def)
  have "\<forall>k. \<not> holds (lookup_table_init lookupTable) k (mac n)"
    by (simp add: not_holds_init length_table_lookupTable)
  from snd_save_absent [OF wf assms this] show ?thesis
    by (simp add: current_position_init NBR_ENTRIES_def)
qed

lemma holds_first_learn:
  assumes "length (mac n) = MAC_ADDR_SIZE" "ifc_num n \<noteq> IF_NO_INIT"
  shows "holds (snd (save_to_table (lookup_table_init lookupTable) n)) 0 (mac n)"
    and "ifc_num (table (snd (save_to_table (lookup_table_init lookupTable) n)) ! 0) = ifc_num n"
  unfolding first_learn [OF assms(1)] using assms(2) length_table_init_lookupTable
  by (simp_all add: holds_def NBR_ENTRIES_def)

lemma run_single:
  "0 < length gifc \<Longrightarrow> run gifc [(1, frame)] lt = Some (parse_frame gifc (gifc ! 0) frame lt)"
  by (simp add: handle_frame_def split: prod.splits)

lemma mac_lengths [simp]:
  "length mac_A = MAC_ADDR_SIZE" "length mac_B = MAC_ADDR_SIZE" "length mac_bcast = MAC_ADDR_SIZE"
  by (simp_all add: mac_A_def mac_B_def mac_bcast_def MAC_ADDR_SIZE_def)

lemma ports_T1_T1:
  "ports_of [''eth0[T:1]'', ''eth1[T:1]''] =
     [\<lparr>mac = replicate MAC_ADDR_SIZE 0, ifc_num = 1, ifc_name = ''eth0'',
       tagged_vlans = (replicate (MAX_VLANS + 1) 0)[0 := 1, 1 := NO_VLAN], untagged_vlan = NO_VLAN\<rparr>,
      \<lparr>mac = replicate MAC_ADDR_SIZE 0, ifc_num = 2, ifc_name = ''eth1'',
       tagged_vlans = (replicate (MAX_VLANS + 1) 0)[0 := 1, 1 := NO_VLAN], untagged_vlan = NO_VLAN\<rparr>]"
  by (simp add: parse_eval MAX_VLANS_def NO_VLAN_def)

lemma ports_T12_T2:
  "ports_of [''eth0[T:1,2]'', ''eth1[T:2]''] =
     [\<lparr>mac = replicate MAC_ADDR_SIZE 0, ifc_num = 1, ifc_name = ''eth0'',
       tagged_vlans = (replicate (MAX_VLANS + 1) 0)[0 := 1, 1 := 2, 2 := NO_VLAN], untagged_vlan = NO_VLAN\<rparr>,
      \<lparr>mac = replicate MAC_ADDR_SIZE 0, ifc_num = 2, ifc_name = ''eth1'',
       tagged_vlans = (replicate (MAX_VLANS + 1) 0)[0 := 2, 1 := NO_VLAN], untagged_vlan = NO_VLAN\<rparr>]"
  by (simp add: parse_eval MAX_VLANS_def NO_VLAN_def numeral_2_eq_2)

lemma ports_U1_U2:
  "ports_of [''eth0[U:1]'', ''eth1[U:2]''] =
     [\<lparr>mac = replicate MAC_ADDR_SIZE 0, ifc_num = 1, ifc_name = ''eth0'',
       tagged_vlans = (replicate (MAX_VLANS + 1) 0)[0 := NO_VLAN], untagged_vlan = 1\<rparr>,
      \<lparr>mac = replicate MAC_ADDR_SIZE 0, ifc_num = 2, ifc_name = ''eth1'',
       tagged_vlans = (replicate (MAX_VLANS + 1) 0)[0 := NO_VLAN], untagged_vlan = 2\<rparr>]"
  by (simp add: parse_eval MAX_VLANS_def NO_VLAN_def)

lemma ports_default:
  "ports_of [''eth0'', ''eth1''] =
     [\<lparr>mac = replicate MAC_ADDR_SIZE 0, ifc_num = 1, ifc_name = ''eth0'',
       tagged_vlans = (replicate (MAX_VLANS + 1) 0)[0 := NO_VLAN], untagged_vlan = 0\<rparr>,
      \<lparr>mac = replicate MAC_ADDR_SIZE 0, ifc_num = 2, ifc_name = ''eth1'',
       tagged_vlans = (replicate (MAX_VLANS + 1) 0)[0 := NO_VLAN], untagged_vlan = 0\<rparr>]"
  by (simp add: parse_eval MAX_VLANS_def NO_VLAN_def DEFAULT_VLAN_def)

lemma flood_T1_T1:
  assumes "14 \<le> length frame" "(frame ! 6) AND 1 = 0" "(frame ! 0) AND 1 \<noteq> 0" "has_qtag frame"
  shows "fst (parse_frame (ports_of [''eth0[T:1]'', ''eth1[T:1]'']) (ports_of [''eth0[T:1]'', ''eth1[T:1]''] ! 0) frame lt) =
     [forward_to (ports_of [''eth0[T:1]'', ''eth1[T:1]''] ! 1) frame]"
  unfolding parse_frame_unfold [OF assms(1,2)] ports_T1_T1 using assms(3,4)
  by (simp add: Let_def parse_tagged_frame_def NO_VLAN_def)

lemma flood_T12_T2:
  assumes "14 \<le> length frame" "(frame ! 6) AND 1 = 0" "(frame ! 0) AND 1 \<noteq> 0" "has_qtag frame"
  shows "fst (parse_frame (ports_of [''eth0[T:1,2]'', ''eth1[T:2]'']) (ports_of [''eth0[T:1,2]'', ''eth1[T:2]''] ! 0) frame lt) = []"
  unfolding parse_frame_unfold [OF assms(1,2)] ports_T12_T2 using assms(3,4)
  by (simp add: Let_def parse_tagged_frame_def NO_VLAN_def)

lemma unicast_to_learned_self:
  assumes len: "14 \<le> length frame" and uni: "(frame ! 6) AND 1 = 0"
    and same: "take 6 frame = take 6 (drop 6 frame)"
    and p: "ifc_num ifc \<noteq> IF_NO_INIT"
  shows "fst (parse_frame gifc ifc frame lookupTable) =
     [forward_to (zero_Interface\<lparr>ifc_num := ifc_num ifc, mac := take 6 frame\<rparr>) frame]"
proof -
  let ?n = "zero_Interface\<lparr>mac := src (read_header frame), ifc_num := ifc_num ifc\<rparr>"
  have d: "dst (read_header frame) = take 6 frame" and s: "src (read_header frame) = take 6 frame"
    using len same by (simp_all add: dst_read_header src_read_header)
  have u0: "(frame ! 0) AND 1 = 0"
  proof -
    have "frame ! 0 = take 6 frame ! 0" using len by simp
    also have "\<dots> = take 6 (drop 6 frame) ! 0" by (simp only: same)
    also have "\<dots> = frame ! 6" using len by simp
    finally show ?thesis using uni by simp
  qed
  have ln: "length (mac ?n) = MAC_ADDR_SIZE" by (simp add: length_src_header)
  from lookup_after_learn [OF table_inv_init_lookupTable ln, of zero_Interface] p
  obtain k where "search_lookup_table (snd (save_to_table (lookup_table_init lookupTable) ?n)) (mac ?n) zero_Interface =
      (int k, zero_Interface\<lparr>ifc_num := ifc_num ?n, mac := mac ?n\<rparr>)"
    by auto
  then show ?thesis
    unfolding parse_frame_unfold [OF len uni] using u0
    by (simp add: Let_def d s nbr_position_lookupTable)
qed

lemma holds_preserved_save:
  assumes wf: "table_wf lt" and len: "length (mac n) = MAC_ADDR_SIZE"
    and h: "holds lt k M" and ne: "M \<noteq> mac n" and c: "nat (current_position lt) \<noteq> k"
  shows "holds (snd (save_to_table lt n)) k M"
    and "ifc_num (table (snd (save_to_table lt n)) ! k) = ifc_num (table lt ! k)"
proof -
  have "table (snd (save_to_table lt n)) ! k = table lt ! k"
    using wf len
  proof (cases rule: find_cases)
    case absent
    show ?thesis unfolding snd_save_absent [OF wf len absent(2)] using c by simp
  next
    case (present j)
    from present(2) h ne have "j \<noteq> k" by (auto simp: holds_def)
    then show ?thesis unfolding save_to_table_present [OF present(1)] by simp
  qed
  with h show "holds (snd (save_to_table lt n)) k M"
    and "ifc_num (table (snd (save_to_table lt n)) ! k) = ifc_num (table lt ! k)"
    by (simp_all add: holds_def)
qed

lemma parse_frame_learns_first:
  assumes "14 \<le> length frame" "(frame ! 6) AND 1 = 0" "take 6 (drop 6 frame) = M" "ifc_num ifc = p"
  shows "snd (parse_frame gifc ifc frame lookupTable) =
     snd (save_to_table (lookup_table_init lookupTable) (zero_Interface\<lparr>mac := M, ifc_num := p\<rparr>))"
  using assms by (simp add: parse_frame_learns src_read_header nbr_position_lookupTable)

lemma unicast_to_learned:
  assumes "14 \<le> length frame" "(frame ! 6) AND 1 = 0" "(frame ! 0) AND 1 = 0"
    and "nbr_position lt \<noteq> 0"
    and "search_lookup_table
           (snd (save_to_table lt (zero_Interface\<lparr>mac := take 6 (drop 6 frame), ifc_num := ifc_num ifc\<rparr>)))
           (take 6 frame) zero_Interface = (k, found)"
    and "k \<noteq> - 1"
  shows "fst (parse_frame gifc ifc frame lt) = [forward_to found frame]"
  unfolding parse_frame_unfold [OF assms(1,2)] using assms(1,3,4,5,6)
  by (simp add: Let_def dst_read_header src_read_header)

lemma flood_U1_U2_port2:
  assumes "14 \<le> length frame" "(frame ! 6) AND 1 = 0" "(frame ! 0) AND 1 \<noteq> 0" "\<not> has_qtag frame"
  shows "fst (parse_frame (ports_of [''eth0[U:1]'', ''eth1[U:2]'']) (ports_of [''eth0[U:1]'', ''eth1[U:2]''] ! 1) frame lt) = []"
  unfolding parse_frame_unfold [OF assms(1,2)] ports_U1_U2 using assms(3,4)
  by (simp add: Let_def NO_VLAN_def MAX_VLANS_def)

lemma run_nil: "run gifc [] lt = Some ([], lt)"
  by simp

lemma run_first_frame:
  "run (ports_of [''eth0[U:2]'', ''eth1[T:2]'']) [(1, frame)] lookupTable =
     Some (fst (parse_frame (ports_of [''eth0[U:2]'', ''eth1[T:2]'']) (ports_of [''eth0[U:2]'', ''eth1[T:2]''] ! 0) frame lookupTable),
           snd (parse_frame (ports_of [''eth0[U:2]'', ''eth1[T:2]'']) (ports_of [''eth0[U:2]'', ''eth1[T:2]''] ! 0) frame lookupTable))"
proof -
  have "0 < length (ports_of [''eth0[U:2]'', ''eth1[T:2]''])" by (simp add: ports_U2_T2)
  then show ?thesis by (simp only: run_single prod.collapse)
qed

lemma first_frame_dropped:
  assumes "parse_frame gifc ifc frame lookupTable =
      ([], if nbr_position lookupTable = 0 then lookup_table_init lookupTable else lookupTable)"
  shows "snd (parse_frame gifc ifc frame lookupTable) = lookup_table_init lookupTable"
  unfolding assms by (simp add: nbr_position_lookupTable)

lemma init_changes_lookupTable:
  "nbr_position (lookup_table_init lookupTable) = 8"
  "map ifc_num (table (lookup_table_init lookupTable)) = replicate 8 IF_NO_INIT"
  "nbr_position lookupTable = 0"
  "map ifc_num (table lookupTable) = replicate 8 0"
  by (simp_all add: nbr_position_init table_lookup_table_init length_table_lookupTable)
    (simp_all add: lookupTable_def NBR_ENTRIES_def zero_Interface_def)

section \<open>The port specification parser: lemmas\<close>

lemma parse_tagged_loop_fails:
  "pos \<le> MAX_VLANS \<Longrightarrow>
   (\<exists>e. parse_tagged_loop scan toks pos ifc = Inl e) \<longleftrightarrow>
   (MAX_VLANS < pos + length toks \<or> (\<exists>tok \<in> set toks. bad_vid scan tok))"
proof (induction toks arbitrary: pos ifc)
  case Nil
  then show ?case by simp
next
  case (Cons tok toks)
  show ?case
  proof (cases "pos = MAX_VLANS")
    case True
    then show ?thesis by simp
  next
    case False
    with Cons.prems have lt: "pos + 1 \<le> MAX_VLANS" by simp
    show ?thesis
    proof (cases "scan tok")
      case None
      then show ?thesis using False by (simp add: bad_vid_def)
    next
      case (Some v)
      show ?thesis
      proof (cases "MAX_VLANS < v")
        case True
        then show ?thesis using False Some by (simp add: bad_vid_def)
      next
        case nb: False
        then have "\<not> bad_vid scan tok" using Some by (simp add: bad_vid_def)
        then show ?thesis using False Some nb Cons.IH [OF lt] by simp
      qed
    qed
  qed
qed

lemma parse_tagged_fails:
  "(\<exists>e. parse_tagged scan s ifc = Inl e) \<longleftrightarrow>
   (\<forall>spec. s \<noteq> CHR '':'' # spec) \<or>
   (\<exists>spec. s = CHR '':'' # spec \<and>
      (MAX_VLANS < length (strtok spec) \<or> (\<exists>tok \<in> set (strtok spec). bad_vid scan tok)))"
proof (cases s)
  case Nil
  then show ?thesis by (simp add: parse_tagged_def)
next
  case (Cons c spec)
  show ?thesis
  proof (cases "c = CHR '':''")
    case False
    then show ?thesis using Cons by (simp add: parse_tagged_def)
  next
    case True
    have "(\<exists>e. parse_tagged scan s ifc = Inl e) \<longleftrightarrow> (\<exists>e. parse_tagged_loop scan (strtok spec) 0 ifc = Inl e)"
      using Cons True by (auto simp: parse_tagged_def split: sum.splits)
    also have "\<dots> \<longleftrightarrow> (MAX_VLANS < length (strtok spec) \<or> (\<exists>tok \<in> set (strtok spec). bad_vid scan tok))"
      using parse_tagged_loop_fails [of 0 scan "strtok spec" ifc] by simp
    finally show ?thesis using Cons True by simp
  qed
qed

lemma parse_untagged_fails:
  "(\<exists>e. parse_untagged scan s ifc = Inl e) \<longleftrightarrow>
   (\<forall>spec. s \<noteq> CHR '':'' # spec) \<or> (\<exists>spec. s = CHR '':'' # spec \<and> bad_vid scan spec)"
  by (cases s) (auto simp: parse_untagged_def bad_vid_def split: option.splits)

lemma parse_vlan_args_bare:
  "CHR ''['' \<notin> set arg \<Longrightarrow>
   parse_vlan_args scan arg ifc =
     Inr (ifc\<lparr>tagged_vlans := (tagged_vlans ifc)[0 := NO_VLAN], untagged_vlan := NO_VLAN,
              ifc_name := arg, untagged_vlan := DEFAULT_VLAN\<rparr>)"
  by (simp add: parse_vlan_args_def)

lemma split_at_bracket:
  assumes "CHR ''['' \<notin> set name"
  shows "takeWhile (\<lambda>c. c \<noteq> CHR ''['') (name @ CHR ''['' # after) = name"
    and "tl (dropWhile (\<lambda>c. c \<noteq> CHR ''['') (name @ CHR ''['' # after)) = after"
proof -
  have "\<And>x. x \<in> set name \<Longrightarrow> x \<noteq> CHR ''[''" using assms by auto
  then show "takeWhile (\<lambda>c. c \<noteq> CHR ''['') (name @ CHR ''['' # after) = name"
    and "tl (dropWhile (\<lambda>c. c \<noteq> CHR ''['') (name @ CHR ''['' # after)) = after"
    by (simp_all add: takeWhile_append2 dropWhile_append2)
qed

lemma parse_vlan_args_unclosed:
  assumes "CHR ''['' \<notin> set name" "CHR '']'' \<notin> set after"
  shows "parse_vlan_args scan (name @ CHR ''['' # after) ifc = Inl LacksCloseBracket"
  using assms(2) by (simp add: parse_vlan_args_def Let_def split_at_bracket [OF assms(1)])

lemma parse_vlan_args_bracketed:
  assumes "CHR ''['' \<notin> set name" "CHR '']'' \<notin> set body"
  shows "parse_vlan_args scan (name @ CHR ''['' # body @ CHR '']'' # rest) ifc =
     (case body of
        [] \<Rightarrow> Inl Unsupported
      | c # s \<Rightarrow>
          if c = CHR ''T'' then
            parse_tagged scan s (ifc\<lparr>tagged_vlans := (tagged_vlans ifc)[0 := NO_VLAN], untagged_vlan := NO_VLAN, ifc_name := name\<rparr>)
          else if c = CHR ''U'' then
            parse_untagged scan s (ifc\<lparr>tagged_vlans := (tagged_vlans ifc)[0 := NO_VLAN], untagged_vlan := NO_VLAN, ifc_name := name\<rparr>)
          else Inl Unsupported)"
proof -
  have "\<And>x. x \<in> set body \<Longrightarrow> x \<noteq> CHR '']''" using assms(2) by auto
  then have "takeWhile (\<lambda>c. c \<noteq> CHR '']'') (body @ CHR '']'' # rest) = body"
    by (simp add: takeWhile_append2)
  then show ?thesis
    by (simp add: parse_vlan_args_def Let_def split_at_bracket [OF assms(1)])
qed

lemma parse_vlan_args_fails:
  assumes "CHR ''['' \<notin> set name" "CHR '']'' \<notin> set body"
  shows "(\<exists>e. parse_vlan_args scan (name @ CHR ''['' # body @ CHR '']'' # rest) ifc = Inl e) \<longleftrightarrow>
     (\<forall>spec. body \<noteq> CHR ''T'' # CHR '':'' # spec \<and> body \<noteq> CHR ''U'' # CHR '':'' # spec) \<or>
     (\<exists>spec. body = CHR ''T'' # CHR '':'' # spec \<and>
        (MAX_VLANS < length (strtok spec) \<or> (\<exists>tok \<in> set (strtok spec). bad_vid scan tok))) \<or>
     (\<exists>spec. body = CHR ''U'' # CHR '':'' # spec \<and> bad_vid scan spec)"
proof (cases body)
  case Nil
  have "parse_vlan_args scan (name @ CHR ''['' # body @ CHR '']'' # rest) ifc = Inl Unsupported"
    using parse_vlan_args_bracketed [OF assms, of scan rest ifc] by (simp add: Nil)
  then show ?thesis using Nil by simp
next
  case (Cons c s)
  consider "c = CHR ''T''" | "c = CHR ''U''" | "c \<noteq> CHR ''T''" "c \<noteq> CHR ''U''" by blast
  then show ?thesis
  proof cases
    case 1
    then show ?thesis
      using parse_vlan_args_bracketed [OF assms, of scan rest ifc]
      by (simp add: Cons parse_tagged_fails)
  next
    case 2
    then show ?thesis
      using parse_vlan_args_bracketed [OF assms, of scan rest ifc]
      by (simp add: Cons parse_untagged_fails)
  next
    case 3
    then show ?thesis
      using parse_vlan_args_bracketed [OF assms, of scan rest ifc] by (simp add: Cons)
  qed
qed

lemma spec_PORTSPEC_samples:
  "spec_PORTSPEC ''eth0''" "spec_PORTSPEC ''eth0[T:1,2]''" "spec_PORTSPEC ''eth0[U:4092]''"
  "\<not> spec_PORTSPEC ''eth0[U:4093]''" "\<not> spec_PORTSPEC ''eth0[X:1]''" "\<not> spec_PORTSPEC ''eth0[T:1''"
  by (simp_all add: spec_PORTSPEC_def spec_NAME_def spec_MEMBERSHIP_def spec_VIDLIST_def spec_VID_def
      digit_of_def)

lemma arg_cases:
  obtains (bare) "CHR ''['' \<notin> set arg"
  | (unclosed) name after where "arg = name @ CHR ''['' # after" "CHR ''['' \<notin> set name" "CHR '']'' \<notin> set after"
  | (bracketed) name body rest where "arg = name @ CHR ''['' # body @ CHR '']'' # rest"
      "CHR ''['' \<notin> set name" "CHR '']'' \<notin> set body"
proof (cases "CHR ''['' \<in> set arg")
  case False
  then show ?thesis by (rule bare)
next
  case True
  then obtain name after where a: "arg = name @ CHR ''['' # after" "CHR ''['' \<notin> set name"
    by (auto dest: split_list_first)
  show ?thesis
  proof (cases "CHR '']'' \<in> set after")
    case False
    with a show ?thesis by (intro unclosed)
  next
    case True
    then obtain body rest where "after = body @ CHR '']'' # rest" "CHR '']'' \<notin> set body"
      by (auto dest: split_list_first)
    with a show ?thesis by (intro bracketed) auto
  qed
qed

lemma parse_vlan_args_fails_indep:
  "(\<exists>e. parse_vlan_args scan arg ifc = Inl e) \<longleftrightarrow> (\<exists>e. parse_vlan_args scan arg ifc' = Inl e)"
proof (cases arg rule: arg_cases)
  case bare
  then show ?thesis by (simp add: parse_vlan_args_bare)
next
  case (unclosed name after)
  then show ?thesis by (simp add: parse_vlan_args_unclosed)
next
  case (bracketed name body rest)
  show ?thesis
    unfolding bracketed(1)
    by (simp only: parse_vlan_args_fails [OF bracketed(2,3)])
qed

lemma parse_ports_fails:
  "parse_ports scan args i = Inl 1 \<longleftrightarrow>
   (\<exists>arg \<in> set args. \<exists>e. parse_vlan_args scan arg zero_Interface = Inl e)"
proof (induction args arbitrary: i)
  case Nil
  then show ?case by simp
next
  case (Cons a args)
  have ind: "(\<exists>e. parse_vlan_args scan a (zero_Interface\<lparr>ifc_num := word_of_nat i\<rparr>) = Inl e) \<longleftrightarrow>
      (\<exists>e. parse_vlan_args scan a zero_Interface = Inl e)"
    by (rule parse_vlan_args_fails_indep)
  show ?case
  proof (cases "parse_vlan_args scan a (zero_Interface\<lparr>ifc_num := word_of_nat i\<rparr>)")
    case (Inl e)
    with ind show ?thesis by auto
  next
    case (Inr g)
    with ind have "\<not> (\<exists>e. parse_vlan_args scan a zero_Interface = Inl e)" by simp
    then show ?thesis using Inr Cons.IH [of "i + 1"] by (auto split: sum.splits)
  qed
qed

lemma parse_ports_exit_code: "parse_ports scan args i = Inl rc \<Longrightarrow> rc = 1"
  by (induction args arbitrary: i) (auto split: sum.splits)

lemma scan_digits_4093: "scan_digits ''4093'' = Some 4093" and scan_digits_1: "scan_digits ''1'' = Some 1"
  and scan_digits_7: "scan_digits ''7'' = Some 7"
  by (simp_all add: scan_digits_def digit_of_def)

lemma digits_no_bracket:
  "list_all (\<lambda>c. digit_of c \<noteq> None) s \<Longrightarrow> CHR '']'' \<notin> set s"
  by (auto simp: list_all_iff digit_of_def)

lemma scan_digits_decimal:
  "s \<noteq> [] \<Longrightarrow> list_all (\<lambda>c. digit_of c \<noteq> None) s \<Longrightarrow> scan_digits s = Some (decimal s)"
  by (cases s) (auto simp: scan_digits_def decimal_def)

lemma converts_exactly_scan_digits: "converts_exactly scan_digits"
  by (simp add: converts_exactly_def plain_number_def scan_digits_decimal)

lemma converts_exactly_scan_reduced: "converts_exactly scan_reduced"
  by (simp add: converts_exactly_def plain_number_def scan_reduced_def scan_digits_decimal)

lemma bad_vid_plain:
  "converts_exactly scan \<Longrightarrow> plain_number tok \<Longrightarrow> bad_vid scan tok \<longleftrightarrow> MAX_VLANS < decimal tok"
  by (simp add: converts_exactly_def bad_vid_def)

lemma parse_vlan_args_untagged_value:
  assumes "CHR ''['' \<notin> set name" "CHR '']'' \<notin> set spec" "scan spec = Some v" "v \<le> MAX_VLANS"
  shows "\<exists>g. parse_vlan_args scan (name @ CHR ''['' # CHR ''U'' # CHR '':'' # spec @ CHR '']'' # rest) ifc = Inr g \<and>
     ifc_name g = name \<and> untagged_vlan g = int v"
proof -
  have "CHR '']'' \<notin> set (CHR ''U'' # CHR '':'' # spec)" using assms(2) by simp
  from parse_vlan_args_bracketed [OF assms(1) this, of scan rest ifc] assms(3,4)
  show ?thesis by (simp add: parse_untagged_def)
qed

lemma plain_samples:
  "plain_number ''1''" "plain_number ''2''" "plain_number ''7''" "plain_number ''4093''"
  "decimal ''1'' = 1" "decimal ''2'' = 2" "decimal ''7'' = 7" "decimal ''4093'' = 4093"
  by (simp_all add: plain_number_def decimal_def digit_of_def)

text \<open>
  A scanner may convert every VID exactly and still store a larger number reduced:
  with \<open>scan_reduced\<close> the parser takes \<^verbatim>\<open>eth0[U:4294967297]\<close> as the untagged member of VLAN 1,
  because the test \<^verbatim>\<open>tag > MAX_VLANS\<close> sees the stored number and not the text.
\<close>

lemma reduced_vid_accepted:
  "\<exists>g. parse_vlan_args scan_reduced ''eth0[U:4294967297]'' zero_Interface = Inr g \<and> untagged_vlan g = 1"
proof -
  have s: "scan_reduced ''4294967297'' = Some 1"
    by (simp add: scan_reduced_def scan_digits_def digit_of_def)
  have "\<exists>g. parse_vlan_args scan_reduced (''eth0'' @ CHR ''['' # CHR ''U'' # CHR '':'' # ''4294967297'' @ CHR '']'' # [])
      zero_Interface = Inr g \<and> ifc_name g = ''eth0'' \<and> untagged_vlan g = int 1"
    using s by (intro parse_vlan_args_untagged_value [where v = 1]) (simp_all add: MAX_VLANS_def)
  then show ?thesis by auto
qed

section \<open>The tagged copy in memory: lemmas\<close>

lemma upt_0_6: "[0..<6] = [0, 1, 2, 3, 4, 5 :: nat]"
  and upt_0_4: "[0..<4] = [0, 1, 2, 3 :: nat]"
  by code_simp+

lemma copy_loop_invariant:
  assumes "12 \<le> b" "b \<le> n" "16 \<le> base" "length m = base + n"
  shows "length (foldl (\<lambda>m i. m[i + 4 := m ! (base + i)]) m [12..<b]) = base + n \<and>
     (\<forall>k. k < 16 \<or> b + 4 \<le> k \<longrightarrow>
          foldl (\<lambda>m i. m[i + 4 := m ! (base + i)]) m [12..<b] ! k = m ! k) \<and>
     (\<forall>k. 16 \<le> k \<and> k < b + 4 \<longrightarrow>
          foldl (\<lambda>m i. m[i + 4 := m ! (base + i)]) m [12..<b] ! k = m ! (base + (k - 4)))"
  using assms(1,2)
proof (induction b)
  case 0
  then show ?case by simp
next
  case (Suc b)
  show ?case
  proof (cases "b < 12")
    case True
    with Suc.prems have "Suc b = 12" by simp
    then show ?thesis using assms(4) by auto
  next
    case False
    then have b: "12 \<le> b" "b \<le> n" using Suc.prems by simp_all
    let ?m = "foldl (\<lambda>m i. m[i + 4 := m ! (base + i)]) m [12..<b]"
    from Suc.IH [OF b] have len: "length ?m = base + n"
      and keep: "\<And>k. k < 16 \<or> b + 4 \<le> k \<Longrightarrow> ?m ! k = m ! k"
      and moved: "\<And>k. 16 \<le> k \<and> k < b + 4 \<Longrightarrow> ?m ! k = m ! (base + (k - 4))"
      by blast+
    have step: "foldl (\<lambda>m i. m[i + 4 := m ! (base + i)]) m [12..<Suc b] = ?m[b + 4 := ?m ! (base + b)]"
      using b(1) by simp
    have rd: "?m ! (base + b) = m ! (base + b)"
      using assms(3) by (intro keep) simp
    have inr: "b + 4 < length ?m" using len Suc.prems(2) assms(3) by simp
    show ?thesis
      unfolding step rd
    proof (intro conjI allI impI)
      show "length (?m[b + 4 := m ! (base + b)]) = base + n" using len by simp
    next
      fix k assume "k < 16 \<or> Suc b + 4 \<le> k"
      then have "k \<noteq> b + 4" "k < 16 \<or> b + 4 \<le> k" using b(1) by auto
      then show "?m[b + 4 := m ! (base + b)] ! k = m ! k" using keep by simp
    next
      fix k assume k: "16 \<le> k \<and> k < Suc b + 4"
      show "?m[b + 4 := m ! (base + b)] ! k = m ! (base + (k - 4))"
      proof (cases "k = b + 4")
        case True
        then show ?thesis using inr by simp
      next
        case False
        with k have "16 \<le> k \<and> k < b + 4" by simp
        with False show ?thesis using moved by simp
      qed
    qed
  qed
qed

lemma header_loops:
  assumes "16 \<le> length m"
  shows "length (foldl (\<lambda>m i. m[12 + i := tg ! i])
            (foldl (\<lambda>m i. m[i := d ! i, 6 + i := s ! i]) m [0..<6]) [0..<4]) = length m"
    and "k < 16 \<Longrightarrow>
      foldl (\<lambda>m i. m[12 + i := tg ! i])
            (foldl (\<lambda>m i. m[i := d ! i, 6 + i := s ! i]) m [0..<6]) [0..<4] ! k =
      (if k < 6 then d ! k else if k < 12 then s ! (k - 6) else tg ! (k - 12))"
    and "16 \<le> k \<Longrightarrow>
      foldl (\<lambda>m i. m[12 + i := tg ! i])
            (foldl (\<lambda>m i. m[i := d ! i, 6 + i := s ! i]) m [0..<6]) [0..<4] ! k = m ! k"
proof -
  show "length (foldl (\<lambda>m i. m[12 + i := tg ! i])
            (foldl (\<lambda>m i. m[i := d ! i, 6 + i := s ! i]) m [0..<6]) [0..<4]) = length m"
    by (simp add: upt_0_6 upt_0_4)
  show "foldl (\<lambda>m i. m[12 + i := tg ! i])
            (foldl (\<lambda>m i. m[i := d ! i, 6 + i := s ! i]) m [0..<6]) [0..<4] ! k = m ! k"
    if "16 \<le> k"
    using that by (simp add: upt_0_6 upt_0_4)
  show "foldl (\<lambda>m i. m[12 + i := tg ! i])
            (foldl (\<lambda>m i. m[i := d ! i, 6 + i := s ! i]) m [0..<6]) [0..<4] ! k =
      (if k < 6 then d ! k else if k < 12 then s ! (k - 6) else tg ! (k - 12))"
    if "k < 16"
  proof -
    from that have "k = 0 \<or> k = 1 \<or> k = 2 \<or> k = 3 \<or> k = 4 \<or> k = 5 \<or> k = 6 \<or> k = 7 \<or>
        k = 8 \<or> k = 9 \<or> k = 10 \<or> k = 11 \<or> k = 12 \<or> k = 13 \<or> k = 14 \<or> k = 15"
      by arith
    moreover have "m \<noteq> []" using assms by auto
    ultimately show ?thesis using assms
      by (elim disjE) (simp_all add: upt_0_6 upt_0_4 nth_list_update)
  qed
qed

lemma first_tagged_copy:
  assumes "12 \<le> length frame" "16 \<le> length frame - 12 + gap"
  shows "fst (tagged_frame_mem gap header frame) = tagged_frame frame header"
proof -
  let ?n = "length frame"
  let ?base = "?n - 12 + gap"
  let ?mem0 = "replicate ?base 0 @ frame"
  let ?mem2 = "foldl (\<lambda>m i. m[12 + i := (htons 0x8100 @ htons 0x001) ! i])
      (foldl (\<lambda>m i. m[i := dst header ! i, 6 + i := src header ! i]) ?mem0 [0..<6]) [0..<4]"
  let ?mem3 = "foldl (\<lambda>m i. m[i + 4 := m ! (?base + i)]) ?mem2 [12..<?n]"
  have l0: "16 \<le> length ?mem0" using assms(2) by simp
  have l2: "length ?mem2 = ?base + ?n" using header_loops(1) [OF l0] by simp
  from copy_loop_invariant [OF assms(1) order_refl assms(2) l2]
  have l3: "length ?mem3 = ?base + ?n"
    and keep: "\<And>k. k < 16 \<Longrightarrow> ?mem3 ! k = ?mem2 ! k"
    and copied: "\<And>k. 16 \<le> k \<Longrightarrow> k < ?n + 4 \<Longrightarrow> ?mem3 ! k = ?mem2 ! (?base + (k - 4))"
    by blast+
  have "take (?n + 4) ?mem3 = tagged_frame frame header"
  proof (rule nth_equalityI)
    show "length (take (?n + 4) ?mem3) = length (tagged_frame frame header)"
      using l3 assms(2) by (simp add: tagged_frame_def)
  next
    fix k assume "k < length (take (?n + 4) ?mem3)"
    then have k: "k < ?n + 4" by simp
    show "take (?n + 4) ?mem3 ! k = tagged_frame frame header ! k"
    proof (cases "k < 16")
      case True
      then show ?thesis using k keep [OF True] header_loops(2) [OF l0 True]
        by (simp add: tagged_frame_def)
    next
      case False
      then have k16: "16 \<le> k" by simp
      have "?mem3 ! k = ?mem2 ! (?base + (k - 4))" using copied [OF k16 k] .
      also have "\<dots> = ?mem0 ! (?base + (k - 4))"
        using assms(2) by (intro header_loops(3) [OF l0]) simp
      also have "\<dots> = frame ! (k - 4)" by (simp add: nth_append)
      finally show ?thesis using k False by (simp add: tagged_frame_def)
    qed
  qed
  then show ?thesis by (simp add: tagged_frame_mem_def Let_def)
qed

lemma parse_frame_mem_flood:
  assumes "14 \<le> length frame" "(frame ! 6) AND 1 = 0" "(frame ! 0) AND 1 \<noteq> 0" "\<not> has_qtag frame"
    "untagged_vlan ifc \<noteq> NO_VLAN"
  shows "fst (parse_frame_mem gap gifc ifc frame lt) =
     parse_untagged_frame_mem gap gifc ifc frame (read_header frame) frame"
  using assms
  by (simp add: parse_frame_mem_def Let_def has_qtag_def tag_read_header mac_copy_id
      length_src_header length_dst_header src_header_0 dst_header_0 case_prod_beta)

lemma ports_U1_T1_T1:
  "ports_of [''eth0[U:1]'', ''eth1[T:1]'', ''eth2[T:1]''] =
     [\<lparr>mac = replicate MAC_ADDR_SIZE 0, ifc_num = 1, ifc_name = ''eth0'',
       tagged_vlans = (replicate (MAX_VLANS + 1) 0)[0 := NO_VLAN], untagged_vlan = 1\<rparr>,
      \<lparr>mac = replicate MAC_ADDR_SIZE 0, ifc_num = 2, ifc_name = ''eth1'',
       tagged_vlans = (replicate (MAX_VLANS + 1) 0)[0 := 1, 1 := NO_VLAN], untagged_vlan = NO_VLAN\<rparr>,
      \<lparr>mac = replicate MAC_ADDR_SIZE 0, ifc_num = 3, ifc_name = ''eth2'',
       tagged_vlans = (replicate (MAX_VLANS + 1) 0)[0 := 1, 1 := NO_VLAN], untagged_vlan = NO_VLAN\<rparr>]"
  by (simp add: parse_eval MAX_VLANS_def NO_VLAN_def)

lemma tagged_copy_1:
  "tagged_frame_mem 0 (read_header (mac_bcast @ mac_A @ payload_14)) (mac_bcast @ mac_A @ payload_14) =
     (mac_bcast @ mac_A @ [0x81, 0x00, 0x00, 0x01] @ payload_14,
      payload_14 @ [3, 4, 5, 6, 7, 8, 9, 10, 11, 12, 13, 14])"
  by code_simp

lemma tagged_copy_2:
  "fst (tagged_frame_mem 0 (read_header (mac_bcast @ mac_A @ payload_14))
          (payload_14 @ [3, 4, 5, 6, 7, 8, 9, 10, 11, 12, 13, 14])) =
     mac_bcast @ mac_A @ [0x81, 0x00, 0x00, 0x01] @ [11, 12, 13, 14, 3, 4, 5, 6, 7, 8, 9, 10, 11, 12, 13, 14]"
  by code_simp

section \<open>Tag correctness\<close>

text \<open>
  Claim C1 (the code does otherwise). \<^verbatim>\<open>parse_untagged_frame\<close> writes the constant
  \<^verbatim>\<open>htons (0x001)\<close> as TCI, whatever the ingress VLAN is. With \<^verbatim>\<open>eth0[U:2] eth1[T:2]\<close>, an
  untagged broadcast frame received on port 1 (ingress VLAN 2) leaves on port 2, a tagged
  member of VLAN 2, with a tag whose VLAN ID is 1.
\<close>

theorem added_tag_has_vid_1:
  "untagged_vlan (ports_of [''eth0[U:2]'', ''eth1[T:2]''] ! 0) = 2 \<and>
   tagged_vlans (ports_of [''eth0[U:2]'', ''eth1[T:2]''] ! 1) ! 0 = 2 \<and>
   fst (parse_frame (ports_of [''eth0[U:2]'', ''eth1[T:2]'']) (ports_of [''eth0[U:2]'', ''eth1[T:2]''] ! 0)
          (mac_bcast @ mac_A @ ipv4_payload) lookupTable) =
     [[0, 26, 0, 2] @ mac_bcast @ mac_A @ [0x81, 0x00, 0x00, 0x01] @ ipv4_payload] \<and>
   msg_port ([0, 26, 0, 2] @ mac_bcast @ mac_A @ [0x81, 0x00, 0x00, 0x01] @ ipv4_payload) = 2 \<and>
   has_qtag (msg_frame ([0, 26, 0, 2] @ mac_bcast @ mac_A @ [0x81, 0x00, 0x00, 0x01] @ ipv4_payload)) \<and>
   qtag_vid (msg_frame ([0, 26, 0, 2] @ mac_bcast @ mac_A @ [0x81, 0x00, 0x00, 0x01] @ ipv4_payload)) = 1"
proof -
  have "untagged_vlan (ports_of [''eth0[U:2]'', ''eth1[T:2]''] ! 0) = 2"
    "tagged_vlans (ports_of [''eth0[U:2]'', ''eth1[T:2]''] ! 1) ! 0 = 2"
    by (simp_all add: ports_U2_T2 MAX_VLANS_def)
  moreover have "msg_port ([0, 26, 0, 2] @ mac_bcast @ mac_A @ [0x81, 0x00, 0x00, 0x01] @ ipv4_payload) = 2"
    "has_qtag (msg_frame ([0, 26, 0, 2] @ mac_bcast @ mac_A @ [0x81, 0x00, 0x00, 0x01] @ ipv4_payload))"
    "qtag_vid (msg_frame ([0, 26, 0, 2] @ mac_bcast @ mac_A @ [0x81, 0x00, 0x00, 0x01] @ ipv4_payload)) = 1"
    by (simp_all add: msg_port_def msg_frame_def qtag_vid_def frame_eval)
  ultimately show ?thesis by (simp add: flood_U2_T2)
qed

section \<open>Learned destinations and VLAN membership\<close>

text \<open>
  Claim C2 (the code does otherwise). When the destination is found in the table,
  \<^verbatim>\<open>parse_frame\<close> forwards to the learned port without looking at any VLAN. With
  \<^verbatim>\<open>eth0[U:1] eth1[U:2]\<close>, after a frame from address B on port 2, a frame for B received
  on port 1 (VLAN 1) is written to port 2, which is in VLAN 2 only.
\<close>

theorem learned_unicast_crosses_vlans:
  "untagged_vlan (ports_of [''eth0[U:1]'', ''eth1[U:2]''] ! 0) = 1 \<and>
   untagged_vlan (ports_of [''eth0[U:1]'', ''eth1[U:2]''] ! 1) = 2 \<and>
   tagged_vlans (ports_of [''eth0[U:1]'', ''eth1[U:2]''] ! 1) ! 0 = NO_VLAN \<and>
   map_option fst
     (run (ports_of [''eth0[U:1]'', ''eth1[U:2]''])
        [(2, mac_bcast @ mac_B @ ipv4_payload), (1, mac_B @ mac_A @ ipv4_payload)] lookupTable) =
     Some [[0, 22, 0, 2] @ mac_B @ mac_A @ ipv4_payload] \<and>
   msg_port ([0, 22, 0, 2] @ mac_B @ mac_A @ ipv4_payload) = 2"
proof -
  let ?P = "ports_of [''eth0[U:1]'', ''eth1[U:2]'']"
  let ?f1 = "mac_bcast @ mac_B @ ipv4_payload"
  let ?f2 = "mac_B @ mac_A @ ipv4_payload"
  let ?B2 = "zero_Interface\<lparr>mac := mac_B, ifc_num := 2\<rparr>"
  let ?A1 = "zero_Interface\<lparr>mac := mac_A, ifc_num := 1\<rparr>"
  let ?L0 = "lookup_table_init lookupTable"
  let ?L1 = "snd (save_to_table ?L0 ?B2)"
  let ?L2 = "snd (save_to_table ?L1 ?A1)"
  have f1: "14 \<le> length ?f1" "(?f1 ! 6) AND 1 = 0" "(?f1 ! 0) AND 1 \<noteq> 0" "\<not> has_qtag ?f1"
    and f2: "14 \<le> length ?f2" "(?f2 ! 6) AND 1 = 0" "(?f2 ! 0) AND 1 = 0"
    and s1: "take 6 (drop 6 ?f1) = mac_B" and s2: "take 6 (drop 6 ?f2) = mac_A" and d2: "take 6 ?f2 = mac_B"
    and ne: "mac_B \<noteq> mac_A"
    by (simp_all add: frame_eval)
  have P: "length ?P = 2" "ifc_num (?P ! 0) = 1" "ifc_num (?P ! 1) = 2"
    "untagged_vlan (?P ! 0) = 1" "untagged_vlan (?P ! 1) = 2" "tagged_vlans (?P ! 1) ! 0 = NO_VLAN"
    by (simp_all add: ports_U1_U2 MAX_VLANS_def)
  have inv0: "table_inv ?L0" by (rule table_inv_init_lookupTable)
  have inv1: "table_inv ?L1" by (rule table_inv_save [OF inv0]) simp
  have inv2: "table_inv ?L2" by (rule table_inv_save [OF inv1]) simp
  have wf1: "table_wf ?L1" using inv1 by (simp add: table_inv_def)
  have n1: "nbr_position ?L1 \<noteq> 0" using wf1 by (simp add: table_wf_def NBR_ENTRIES_def)
  have h1: "holds ?L1 0 mac_B" "ifc_num (table ?L1 ! 0) = 2"
    using holds_first_learn [of ?B2] by (simp_all add: IF_NO_INIT_def)
  have c1: "nat (current_position ?L1) \<noteq> 0"
    by (simp add: first_learn)
  have h2: "holds ?L2 0 mac_B" "ifc_num (table ?L2 ! 0) = 2"
    using holds_preserved_save [OF wf1 _ h1(1) _ c1, of ?A1] ne h1(2) by simp_all
  have look: "search_lookup_table ?L2 mac_B zero_Interface = (0, zero_Interface\<lparr>ifc_num := 2, mac := mac_B\<rparr>)"
    using search_holds [OF inv2 _ h2(1), of zero_Interface] h2(2) by simp
  have step1: "parse_frame ?P (?P ! 1) ?f1 lookupTable = ([], ?L1)"
  proof (rule prod_eqI)
    show "fst (parse_frame ?P (?P ! 1) ?f1 lookupTable) = fst ([], ?L1)"
      by (simp only: flood_U1_U2_port2 [OF f1] fst_conv)
    show "snd (parse_frame ?P (?P ! 1) ?f1 lookupTable) = snd ([], ?L1)"
      by (simp only: parse_frame_learns_first [OF f1(1,2) s1 P(3)] snd_conv)
  qed
  have look': "search_lookup_table
      (snd (save_to_table ?L1 (zero_Interface\<lparr>mac := take 6 (drop 6 ?f2), ifc_num := ifc_num (?P ! 0)\<rparr>)))
      (take 6 ?f2) zero_Interface = (0, zero_Interface\<lparr>ifc_num := 2, mac := mac_B\<rparr>)"
    by (simp only: s2 d2 P(2) look)
  have "fst (parse_frame ?P (?P ! 0) ?f2 ?L1) = [forward_to (zero_Interface\<lparr>ifc_num := 2, mac := mac_B\<rparr>) ?f2]"
    by (rule unicast_to_learned [OF f2 n1 look']) simp
  also have "\<dots> = [[0, 22, 0, 2] @ ?f2]"
    by (simp add: forward_to_def htons_def frame_eval)
  finally have step2: "fst (parse_frame ?P (?P ! 0) ?f2 ?L1) = [[0, 22, 0, 2] @ ?f2]" .
  have "map_option fst (run ?P [(2, ?f1), (1, ?f2)] lookupTable) = Some [[0, 22, 0, 2] @ ?f2]"
    using step1 step2 P(1) by (simp add: handle_frame_def split: prod.splits)
  moreover have "msg_port ([0, 22, 0, 2] @ ?f2) = 2" by (simp add: msg_port_def frame_eval)
  ultimately show ?thesis using P by simp
qed

section \<open>No self-loop\<close>

text \<open>
  Claim C3 (the code does otherwise). The two flooding loops skip the ingress port; the
  learned-destination branch does not. A frame whose destination equals its source is
  learned on its ingress port first and then written back to that same port: here on
  port 1, in the first frame the switch handles.
\<close>

theorem learned_port_is_ingress_port:
  "ifc_num (ports_of [''eth0'', ''eth1''] ! 0) = 1 \<and>
   fst (parse_frame (ports_of [''eth0'', ''eth1'']) (ports_of [''eth0'', ''eth1''] ! 0)
          (mac_A @ mac_A @ ipv4_payload) lookupTable) =
     [[0, 22, 0, 1] @ mac_A @ mac_A @ ipv4_payload] \<and>
   msg_port ([0, 22, 0, 1] @ mac_A @ mac_A @ ipv4_payload) = 1"
proof -
  let ?f = "mac_A @ mac_A @ ipv4_payload"
  let ?P = "ports_of [''eth0'', ''eth1'']"
  have f: "14 \<le> length ?f" "(?f ! 6) AND 1 = 0" "take 6 ?f = take 6 (drop 6 ?f)"
    by (simp_all add: frame_eval)
  have p: "ifc_num (?P ! 0) = 1" by (simp add: ports_default)
  then have p': "ifc_num (?P ! 0) \<noteq> IF_NO_INIT" by (simp add: IF_NO_INIT_def)
  have "fst (parse_frame ?P (?P ! 0) ?f lookupTable) = [[0, 22, 0, 1] @ ?f]"
    unfolding unicast_to_learned_self [OF f p'] p
    by (simp add: forward_to_def htons_def frame_eval)
  moreover have "msg_port ([0, 22, 0, 1] @ ?f) = 1"
    by (simp add: msg_port_def frame_eval)
  ultimately show ?thesis using p by simp
qed

section \<open>Tagged ingress\<close>

text \<open>
  Claim C4 (the code does otherwise). \<^verbatim>\<open>parse_tagged_frame\<close> never reads the TCI and
  compares only \<^verbatim>\<open>tagged_vlans[0]\<close> of the ports. With \<^verbatim>\<open>eth0[T:1] eth1[T:1]\<close> a frame
  tagged with VLAN 5 received on port 1, which is no member of VLAN 5, is forwarded to
  port 2. With \<^verbatim>\<open>eth0[T:1,2] eth1[T:2]\<close> a frame tagged with VLAN 2 received on port 1,
  a tagged member of VLAN 2 through its second entry, reaches no port.
\<close>

theorem tagged_ingress_ignores_vid:
  "tagged_vlans (ports_of [''eth0[T:1]'', ''eth1[T:1]''] ! 0) ! 0 = 1 \<and>
   tagged_vlans (ports_of [''eth0[T:1]'', ''eth1[T:1]''] ! 0) ! 1 = NO_VLAN \<and>
   has_qtag (mac_bcast @ mac_A @ [0x81, 0x00, 0x00, 0x05] @ ipv4_payload) \<and>
   qtag_vid (mac_bcast @ mac_A @ [0x81, 0x00, 0x00, 0x05] @ ipv4_payload) = 5 \<and>
   fst (parse_frame (ports_of [''eth0[T:1]'', ''eth1[T:1]'']) (ports_of [''eth0[T:1]'', ''eth1[T:1]''] ! 0)
          (mac_bcast @ mac_A @ [0x81, 0x00, 0x00, 0x05] @ ipv4_payload) lookupTable) =
     [[0, 26, 0, 2] @ mac_bcast @ mac_A @ [0x81, 0x00, 0x00, 0x05] @ ipv4_payload] \<and>
   tagged_vlans (ports_of [''eth0[T:1,2]'', ''eth1[T:2]''] ! 0) ! 1 = 2 \<and>
   tagged_vlans (ports_of [''eth0[T:1,2]'', ''eth1[T:2]''] ! 1) ! 0 = 2 \<and>
   qtag_vid (mac_bcast @ mac_A @ [0x81, 0x00, 0x00, 0x02] @ ipv4_payload) = 2 \<and>
   fst (parse_frame (ports_of [''eth0[T:1,2]'', ''eth1[T:2]'']) (ports_of [''eth0[T:1,2]'', ''eth1[T:2]''] ! 0)
          (mac_bcast @ mac_A @ [0x81, 0x00, 0x00, 0x02] @ ipv4_payload) lookupTable) = []"
proof -
  let ?f5 = "mac_bcast @ mac_A @ [0x81, 0x00, 0x00, 0x05] @ ipv4_payload"
  let ?f2 = "mac_bcast @ mac_A @ [0x81, 0x00, 0x00, 0x02] @ ipv4_payload"
  have f5: "14 \<le> length ?f5" "(?f5 ! 6) AND 1 = 0" "(?f5 ! 0) AND 1 \<noteq> 0" "has_qtag ?f5"
    and f2: "14 \<le> length ?f2" "(?f2 ! 6) AND 1 = 0" "(?f2 ! 0) AND 1 \<noteq> 0" "has_qtag ?f2"
    by (simp_all add: frame_eval)
  have v: "qtag_vid ?f5 = 5" "qtag_vid ?f2 = 2"
    by (simp_all add: qtag_vid_def frame_eval)
  have p: "tagged_vlans (ports_of [''eth0[T:1]'', ''eth1[T:1]''] ! 0) ! 0 = 1"
    "tagged_vlans (ports_of [''eth0[T:1]'', ''eth1[T:1]''] ! 0) ! 1 = NO_VLAN"
    "tagged_vlans (ports_of [''eth0[T:1,2]'', ''eth1[T:2]''] ! 0) ! 1 = 2"
    "tagged_vlans (ports_of [''eth0[T:1,2]'', ''eth1[T:2]''] ! 1) ! 0 = 2"
    by (simp_all add: ports_T1_T1 ports_T12_T2 MAX_VLANS_def)
  have o5: "fst (parse_frame (ports_of [''eth0[T:1]'', ''eth1[T:1]'']) (ports_of [''eth0[T:1]'', ''eth1[T:1]''] ! 0) ?f5 lookupTable) =
     [[0, 26, 0, 2] @ ?f5]"
    unfolding flood_T1_T1 [OF f5]
    by (simp add: ports_T1_T1 forward_to_def htons_def frame_eval)
  have o2: "fst (parse_frame (ports_of [''eth0[T:1,2]'', ''eth1[T:2]'']) (ports_of [''eth0[T:1,2]'', ''eth1[T:2]''] ! 0) ?f2 lookupTable) = []"
    by (rule flood_T12_T2 [OF f2])
  from f5(4) v p o5 o2 show ?thesis by simp
qed

section \<open>Frames with a multicast source\<close>

text \<open>
  Claim C5, as stated, fails on the first frame that the switch handles: \<^verbatim>\<open>parse_frame\<close>
  initialises the table before it looks at the frame, so a first frame with a multicast
  source leaves a table that differs from the one it found. With \<^verbatim>\<open>eth0[U:2] eth1[T:2]\<close> and
  a frame whose source is the broadcast address, nothing is written to the driver, but all
  eight slots get the port \<open>IF_NO_INIT\<close> (they held 0) and \<^verbatim>\<open>nbr_position\<close> goes from 0 to 8.
\<close>

theorem first_multicast_frame_initialises_table:
  "((mac_bcast @ mac_bcast @ ipv4_payload) ! 6) AND 1 = 1 \<and>
   fst (parse_frame (ports_of [''eth0[U:2]'', ''eth1[T:2]'']) (ports_of [''eth0[U:2]'', ''eth1[T:2]''] ! 0)
         (mac_bcast @ mac_bcast @ ipv4_payload) lookupTable) = [] \<and>
   snd (parse_frame (ports_of [''eth0[U:2]'', ''eth1[T:2]'']) (ports_of [''eth0[U:2]'', ''eth1[T:2]''] ! 0)
         (mac_bcast @ mac_bcast @ ipv4_payload) lookupTable) = lookup_table_init lookupTable \<and>
   nbr_position lookupTable = 0 \<and>
   nbr_position (lookup_table_init lookupTable) = 8 \<and>
   map ifc_num (table lookupTable) = replicate 8 0 \<and>
   map ifc_num (table (lookup_table_init lookupTable)) = replicate 8 IF_NO_INIT \<and>
   lookup_table_init lookupTable \<noteq> lookupTable"
proof -
  let ?f = "mac_bcast @ mac_bcast @ ipv4_payload"
  have m: "14 \<le> length ?f" "(?f ! 6) AND 1 \<noteq> 0" and b: "(?f ! 6) AND 1 = 1"
    by (simp_all add: frame_eval)
  note d = parse_frame_multicast_src [OF m]
  have ne: "lookup_table_init lookupTable \<noteq> lookupTable"
  proof
    assume "lookup_table_init lookupTable = lookupTable"
    then have "nbr_position (lookup_table_init lookupTable) = nbr_position lookupTable" by simp
    then show False by (simp add: init_changes_lookupTable)
  qed
  show ?thesis
    using b ne by (simp add: first_frame_dropped [OF d] init_changes_lookupTable) (simp add: d)
qed

text \<open>
  Claim C5, amended. In every table \<open>lt\<close> that a run of the switch reaches, a frame whose
  source address has the multicast bit set (bit 0 of byte 6) makes \<^verbatim>\<open>parse_frame\<close> write
  nothing to the driver and learn nothing: the cursor stays where it is and every lookup
  gives what it gave in \<open>lt\<close>. Once the switch has handled any frame, the table afterwards
  is \<open>lt\<close> itself (no slot is written); on the very first frame it is \<open>lt\<close> initialised
  by \<^verbatim>\<open>lookup_table_init\<close>, and nothing else is written.
\<close>

theorem multicast_source_dropped:
  assumes "run gifc inputs lookupTable = Some (out, lt)"
    and "6 < length frame" and "(frame ! 6) AND 1 \<noteq> 0"
  shows "fst (parse_frame gifc ifc frame lt) = [] \<and>
     current_position (snd (parse_frame gifc ifc frame lt)) = current_position lt \<and>
     (\<forall>M f. search_lookup_table (snd (parse_frame gifc ifc frame lt)) M f = search_lookup_table lt M f) \<and>
     (inputs \<noteq> [] \<longrightarrow> snd (parse_frame gifc ifc frame lt) = lt) \<and>
     (inputs = [] \<longrightarrow> snd (parse_frame gifc ifc frame lt) = lookup_table_init lt)"
proof -
  have d: "parse_frame gifc ifc frame lt = ([], if nbr_position lt = 0 then lookup_table_init lt else lt)"
  proof (cases "length frame < 14")
    case True
    then show ?thesis by (rule parse_frame_short)
  next
    case False
    then show ?thesis using assms(3) by (intro parse_frame_multicast_src) simp_all
  qed
  have first: "inputs = [] \<longrightarrow> snd (parse_frame gifc ifc frame lt) = lookup_table_init lt"
  proof
    assume "inputs = []"
    with assms(1) have "lt = lookupTable" by simp
    then show "snd (parse_frame gifc ifc frame lt) = lookup_table_init lt"
      unfolding d by (simp add: nbr_position_lookupTable)
  qed
  from dropped_keeps_table [OF assms(1) d] first show ?thesis by blast
qed

theorem multicast_source_dropped_witness:
  "fst (parse_frame (ports_of [''eth0[U:2]'', ''eth1[T:2]'']) (ports_of [''eth0[U:2]'', ''eth1[T:2]''] ! 0)
         (mac_bcast @ mac_bcast @ ipv4_payload) lookupTable) = [] \<and>
   snd (parse_frame (ports_of [''eth0[U:2]'', ''eth1[T:2]'']) (ports_of [''eth0[U:2]'', ''eth1[T:2]''] ! 0)
         (mac_bcast @ mac_bcast @ ipv4_payload) lookupTable) = lookup_table_init lookupTable \<and>
   fst (parse_frame (ports_of [''eth0[U:2]'', ''eth1[T:2]'']) (ports_of [''eth0[U:2]'', ''eth1[T:2]''] ! 1)
         (mac_A @ mac_bcast @ ipv4_payload)
         (snd (parse_frame (ports_of [''eth0[U:2]'', ''eth1[T:2]'']) (ports_of [''eth0[U:2]'', ''eth1[T:2]''] ! 0)
                 (mac_bcast @ mac_A @ ipv4_payload) lookupTable))) = [] \<and>
   snd (parse_frame (ports_of [''eth0[U:2]'', ''eth1[T:2]'']) (ports_of [''eth0[U:2]'', ''eth1[T:2]''] ! 1)
         (mac_A @ mac_bcast @ ipv4_payload)
         (snd (parse_frame (ports_of [''eth0[U:2]'', ''eth1[T:2]'']) (ports_of [''eth0[U:2]'', ''eth1[T:2]''] ! 0)
                 (mac_bcast @ mac_A @ ipv4_payload) lookupTable))) =
     snd (parse_frame (ports_of [''eth0[U:2]'', ''eth1[T:2]'']) (ports_of [''eth0[U:2]'', ''eth1[T:2]''] ! 0)
            (mac_bcast @ mac_A @ ipv4_payload) lookupTable)"
proof -
  let ?P = "ports_of [''eth0[U:2]'', ''eth1[T:2]'']"
  have m1: "6 < length (mac_bcast @ mac_bcast @ ipv4_payload)" "((mac_bcast @ mac_bcast @ ipv4_payload) ! 6) AND 1 \<noteq> 0"
    and m2: "6 < length (mac_A @ mac_bcast @ ipv4_payload)" "((mac_A @ mac_bcast @ ipv4_payload) ! 6) AND 1 \<noteq> 0"
    by (simp_all add: frame_eval)
  have ne: "[(1 :: uint16_t, mac_bcast @ mac_A @ ipv4_payload)] \<noteq> []" by simp
  from multicast_source_dropped [OF run_nil m1, where gifc = ?P and ifc = "?P ! 0"]
    multicast_source_dropped [OF run_first_frame [of "mac_bcast @ mac_A @ ipv4_payload"] m2, where ifc = "?P ! 1"] ne
  show ?thesis by blast
qed

section \<open>Move-on-change learning\<close>

text \<open>
  Claim C6. In a table that satisfies the invariant (eight slots, cursor in range, no
  address stored twice; by \<open>table_inv_init\<close>, \<open>table_inv_save\<close> and \<open>run_table_inv\<close> every
  table on which the switch calls \<^verbatim>\<open>save_to_table\<close> does), \<^verbatim>\<open>save_to_table\<close> called with
  the address \<open>M\<close> and the port \<open>p\<close>
  \<^item> returns \<open>-1\<close> and leaves the whole table (all slots and the cursor) as it is, when
    some slot stores \<open>M\<close> with port \<open>p\<close>;
  \<^item> overwrites only the port of that slot, leaving every other slot, the stored address
    and the cursor as they are, when a slot stores \<open>M\<close> with another port;
  \<^item> writes \<open>(M, p)\<close> into the slot under the cursor and advances the cursor modulo the
    capacity, when no slot stores \<open>M\<close>.
\<close>

theorem learn_move_on_change:
  assumes "table_inv lt" and "length (mac new_if) = MAC_ADDR_SIZE"
  shows
    "(\<forall>k. holds lt k (mac new_if) \<and> ifc_num (table lt ! k) = ifc_num new_if \<longrightarrow>
          save_to_table lt new_if = (- 1, lt)) \<and>
     (\<forall>k. holds lt k (mac new_if) \<and> ifc_num (table lt ! k) \<noteq> ifc_num new_if \<longrightarrow>
          save_to_table lt new_if =
            (0, lt\<lparr>table := (table lt)[k := (table lt ! k)\<lparr>ifc_num := ifc_num new_if\<rparr>]\<rparr>)) \<and>
     ((\<forall>k. \<not> holds lt k (mac new_if)) \<longrightarrow>
          save_to_table lt new_if =
            (0, lt\<lparr>table := (table lt)[nat (current_position lt) :=
                        (table lt ! nat (current_position lt))\<lparr>ifc_num := ifc_num new_if, mac := mac new_if\<rparr>],
                   current_position := (current_position lt + 1) mod int NBR_ENTRIES\<rparr>))"
proof (intro conjI allI impI)
  fix k
  assume "holds lt k (mac new_if) \<and> ifc_num (table lt ! k) = ifc_num new_if"
  then have h: "holds lt k (mac new_if)" and p: "ifc_num (table lt ! k) = ifc_num new_if"
    by simp_all
  from save_to_table_present [OF find_holds [OF assms h]] p
  show "save_to_table lt new_if = (- 1, lt)" by simp
next
  fix k
  assume "holds lt k (mac new_if) \<and> ifc_num (table lt ! k) \<noteq> ifc_num new_if"
  then have h: "holds lt k (mac new_if)" and p: "ifc_num (table lt ! k) \<noteq> ifc_num new_if"
    by simp_all
  from save_to_table_present [OF find_holds [OF assms h]] p
  show "save_to_table lt new_if =
      (0, lt\<lparr>table := (table lt)[k := (table lt ! k)\<lparr>ifc_num := ifc_num new_if\<rparr>]\<rparr>)"
    by simp
next
  assume "\<forall>k. \<not> holds lt k (mac new_if)"
  moreover have wf: "table_wf lt" using assms(1) by (simp add: table_inv_def)
  ultimately have "find (live lt (mac new_if)) [0..<nat (nbr_position lt)] = None"
    using find_absent assms(2) by blast
  then show "save_to_table lt new_if =
      (0, lt\<lparr>table := (table lt)[nat (current_position lt) :=
                  (table lt ! nat (current_position lt))\<lparr>ifc_num := ifc_num new_if, mac := mac new_if\<rparr>],
             current_position := (current_position lt + 1) mod int NBR_ENTRIES\<rparr>)"
    using wf assms(2) by (simp add: save_to_table_absent mac_copy_id table_wf_def)
qed

theorem learn_move_on_change_witness:
  "table_inv (lookup_table_init lookupTable) \<and>
   (\<forall>k. \<not> holds (lookup_table_init lookupTable) k mac_A) \<and>
   snd (save_to_table (lookup_table_init lookupTable) (zero_Interface\<lparr>mac := mac_A, ifc_num := 1\<rparr>)) =
     (lookup_table_init lookupTable)
       \<lparr>table := (table (lookup_table_init lookupTable))[0 :=
            (table (lookup_table_init lookupTable) ! 0)\<lparr>ifc_num := 1, mac := mac_A\<rparr>],
        current_position := 1\<rparr> \<and>
   holds (snd (save_to_table (lookup_table_init lookupTable) (zero_Interface\<lparr>mac := mac_A, ifc_num := 1\<rparr>))) 0 mac_A \<and>
   save_to_table (snd (save_to_table (lookup_table_init lookupTable) (zero_Interface\<lparr>mac := mac_A, ifc_num := 1\<rparr>)))
       (zero_Interface\<lparr>mac := mac_A, ifc_num := 1\<rparr>) =
     (- 1, snd (save_to_table (lookup_table_init lookupTable) (zero_Interface\<lparr>mac := mac_A, ifc_num := 1\<rparr>))) \<and>
   fst (save_to_table (snd (save_to_table (lookup_table_init lookupTable) (zero_Interface\<lparr>mac := mac_A, ifc_num := 1\<rparr>)))
       (zero_Interface\<lparr>mac := mac_A, ifc_num := 2\<rparr>)) = 0"
proof -
  let ?L0 = "lookup_table_init lookupTable"
  let ?A1 = "zero_Interface\<lparr>mac := mac_A, ifc_num := 1\<rparr>"
  let ?A2 = "zero_Interface\<lparr>mac := mac_A, ifc_num := 2\<rparr>"
  let ?L1 = "snd (save_to_table ?L0 ?A1)"
  have inv0: "table_inv ?L0" by (rule table_inv_init_lookupTable)
  have len1: "length (mac ?A1) = MAC_ADDR_SIZE" and len2: "length (mac ?A2) = MAC_ADDR_SIZE" by simp_all
  have abs: "\<forall>k. \<not> holds ?L0 k mac_A" by (simp add: not_holds_init length_table_lookupTable)
  have s0: "snd (save_to_table ?L0 ?A1) =
     ?L0\<lparr>table := (table ?L0)[0 := (table ?L0 ! 0)\<lparr>ifc_num := 1, mac := mac_A\<rparr>], current_position := 1\<rparr>"
    using learn_move_on_change [OF inv0 len1] abs
    by (simp add: current_position_init NBR_ENTRIES_def)
  have inv1: "table_inv ?L1" by (rule table_inv_save [OF inv0 len1])
  have h: "holds ?L1 0 mac_A" and p: "ifc_num (table ?L1 ! 0) = 1"
    using holds_first_learn [of ?A1] by (simp_all add: IF_NO_INIT_def)
  have s1: "save_to_table ?L1 ?A1 = (- 1, ?L1)"
    using learn_move_on_change [OF inv1 len1] h p by auto
  have s2: "fst (save_to_table ?L1 ?A2) = 0"
  proof -
    have "holds ?L1 0 (mac ?A2) \<and> ifc_num (table ?L1 ! 0) \<noteq> ifc_num ?A2" using h p by simp
    with learn_move_on_change [OF inv1 len2] show ?thesis by (metis fst_conv)
  qed
  from inv0 abs s0 h s1 s2 show ?thesis by simp
qed

section \<open>Payload preservation\<close>

text \<open>
  Claim C7 (the code does otherwise). \<^verbatim>\<open>parse_untagged_frame\<close> declares \<^verbatim>\<open>tagged_frame\<close> with
  \<^verbatim>\<open>frame_size - 12\<close> bytes and writes \<^verbatim>\<open>frame_size + 4\<close>: the last 16 writes of a tagged copy
  lie behind the array, and with \<^verbatim>\<open>byte_frame\<close> right behind it they overwrite
  \<^verbatim>\<open>byte_frame[0 .. 15]\<close>, from which the next tagged copy is made. With
  \<^verbatim>\<open>eth0[U:1] eth1[T:1] eth2[T:1]\<close>, an untagged broadcast frame of 28 bytes received on
  port 1 is flooded to port 2 and to port 3 with a tag. Port 2 gets the payload as
  received; port 3 gets \<open>0b 0c 0d 0e\<close> behind the tag, where the frame received has
  \<open>08 00 01 02\<close>, so the bytes behind header and tag are not those of the ingress frame.
\<close>

theorem second_tagged_copy_corrupted:
  "fst (parse_frame_mem 0 (ports_of [''eth0[U:1]'', ''eth1[T:1]'', ''eth2[T:1]''])
         (ports_of [''eth0[U:1]'', ''eth1[T:1]'', ''eth2[T:1]''] ! 0)
         (mac_bcast @ mac_A @ payload_14) lookupTable) =
     [[0, 36, 0, 2] @ mac_bcast @ mac_A @ [0x81, 0x00, 0x00, 0x01] @
        [0x08, 0x00, 1, 2, 3, 4, 5, 6, 7, 8, 9, 10, 11, 12, 13, 14],
      [0, 36, 0, 3] @ mac_bcast @ mac_A @ [0x81, 0x00, 0x00, 0x01] @
        [11, 12, 13, 14, 3, 4, 5, 6, 7, 8, 9, 10, 11, 12, 13, 14]] \<and>
   drop 14 (mac_bcast @ mac_A @ payload_14) = [1, 2, 3, 4, 5, 6, 7, 8, 9, 10, 11, 12, 13, 14] \<and>
   drop 18 (msg_frame ([0, 36, 0, 3] @ mac_bcast @ mac_A @ [0x81, 0x00, 0x00, 0x01] @
        [11, 12, 13, 14, 3, 4, 5, 6, 7, 8, 9, 10, 11, 12, 13, 14])) =
     [13, 14, 3, 4, 5, 6, 7, 8, 9, 10, 11, 12, 13, 14] \<and>
   msg_port ([0, 36, 0, 3] @ mac_bcast @ mac_A @ [0x81, 0x00, 0x00, 0x01] @
        [11, 12, 13, 14, 3, 4, 5, 6, 7, 8, 9, 10, 11, 12, 13, 14]) = 3 \<and>
   drop 18 (msg_frame ([0, 36, 0, 3] @ mac_bcast @ mac_A @ [0x81, 0x00, 0x00, 0x01] @
        [11, 12, 13, 14, 3, 4, 5, 6, 7, 8, 9, 10, 11, 12, 13, 14])) \<noteq>
     drop 14 (mac_bcast @ mac_A @ payload_14)"
proof -
  let ?f = "mac_bcast @ mac_A @ payload_14"
  have pre: "14 \<le> length ?f" "(?f ! 6) AND 1 = 0" "(?f ! 0) AND 1 \<noteq> 0" "\<not> has_qtag ?f"
    by (simp_all add: frame_eval payload_14_def)
  have u: "untagged_vlan (ports_of [''eth0[U:1]'', ''eth1[T:1]'', ''eth2[T:1]''] ! 0) \<noteq> NO_VLAN"
    by (simp add: ports_U1_T1_T1 NO_VLAN_def)
  have flood: "parse_untagged_frame_mem 0 (ports_of [''eth0[U:1]'', ''eth1[T:1]'', ''eth2[T:1]''])
         (ports_of [''eth0[U:1]'', ''eth1[T:1]'', ''eth2[T:1]''] ! 0) ?f (read_header ?f) ?f =
     [[0, 36, 0, 2] @ mac_bcast @ mac_A @ [0x81, 0x00, 0x00, 0x01] @ payload_14,
      [0, 36, 0, 3] @ mac_bcast @ mac_A @ [0x81, 0x00, 0x00, 0x01] @
        [11, 12, 13, 14, 3, 4, 5, 6, 7, 8, 9, 10, 11, 12, 13, 14]]"
    unfolding ports_U1_T1_T1
    by (simp add: tagged_copy_1 tagged_copy_2 NO_VLAN_def MAX_VLANS_def forward_to_def htons_def)
      (simp add: frame_eval payload_14_def MAC_ADDR_SIZE_def)
  have p1: "fst (parse_frame_mem 0 (ports_of [''eth0[U:1]'', ''eth1[T:1]'', ''eth2[T:1]''])
         (ports_of [''eth0[U:1]'', ''eth1[T:1]'', ''eth2[T:1]''] ! 0) ?f lookupTable) =
     [[0, 36, 0, 2] @ mac_bcast @ mac_A @ [0x81, 0x00, 0x00, 0x01] @
        [0x08, 0x00, 1, 2, 3, 4, 5, 6, 7, 8, 9, 10, 11, 12, 13, 14],
      [0, 36, 0, 3] @ mac_bcast @ mac_A @ [0x81, 0x00, 0x00, 0x01] @
        [11, 12, 13, 14, 3, 4, 5, 6, 7, 8, 9, 10, 11, 12, 13, 14]]"
    unfolding parse_frame_mem_flood [OF pre u] flood by (simp add: payload_14_def)
  have p2: "drop 14 ?f = [1, 2, 3, 4, 5, 6, 7, 8, 9, 10, 11, 12, 13, 14]"
    by (simp add: frame_eval payload_14_def)
  have p3: "drop 18 (msg_frame ([0, 36, 0, 3] @ mac_bcast @ mac_A @ [0x81, 0x00, 0x00, 0x01] @
        [11, 12, 13, 14, 3, 4, 5, 6, 7, 8, 9, 10, 11, 12, 13, 14])) =
     [13, 14, 3, 4, 5, 6, 7, 8, 9, 10, 11, 12, 13, 14]"
    by (simp add: msg_frame_def frame_eval)
  have p4: "msg_port ([0, 36, 0, 3] @ mac_bcast @ mac_A @ [0x81, 0x00, 0x00, 0x01] @
        [11, 12, 13, 14, 3, 4, 5, 6, 7, 8, 9, 10, 11, 12, 13, 14]) = 3"
    by (simp add: msg_port_def frame_eval)
  have p5: "drop 18 (msg_frame ([0, 36, 0, 3] @ mac_bcast @ mac_A @ [0x81, 0x00, 0x00, 0x01] @
        [11, 12, 13, 14, 3, 4, 5, 6, 7, 8, 9, 10, 11, 12, 13, 14])) \<noteq> drop 14 ?f"
    unfolding p2 p3 by simp
  show ?thesis by (intro conjI p1 p2 p3 p4 p5)
qed

section \<open>Short frames\<close>

text \<open>
  Claim C8, as stated, fails: 14 bytes is the only length \<^verbatim>\<open>parse_frame\<close> checks. A 14-byte
  frame with \<open>0x8100\<close> at offset 12, received on port 1 of \<^verbatim>\<open>eth0[T:1] eth1[T:1]\<close>, is
  forwarded to port 2 and its source is learned.
\<close>

theorem short_tagged_frame_forwarded:
  "length (mac_bcast @ mac_A @ [0x81, 0x00]) < 18 \<and>
   has_qtag (mac_bcast @ mac_A @ [0x81, 0x00]) \<and>
   fst (parse_frame (ports_of [''eth0[T:1]'', ''eth1[T:1]'']) (ports_of [''eth0[T:1]'', ''eth1[T:1]''] ! 0)
          (mac_bcast @ mac_A @ [0x81, 0x00]) lookupTable) =
     [[0, 18, 0, 2] @ mac_bcast @ mac_A @ [0x81, 0x00]] \<and>
   holds (snd (parse_frame (ports_of [''eth0[T:1]'', ''eth1[T:1]'']) (ports_of [''eth0[T:1]'', ''eth1[T:1]''] ! 0)
          (mac_bcast @ mac_A @ [0x81, 0x00]) lookupTable)) 0 mac_A"
proof -
  let ?P = "ports_of [''eth0[T:1]'', ''eth1[T:1]'']"
  let ?f = "mac_bcast @ mac_A @ [0x81, 0x00]"
  have f: "14 \<le> length ?f" "(?f ! 6) AND 1 = 0" "(?f ! 0) AND 1 \<noteq> 0" "has_qtag ?f"
    and l: "length ?f < 18" and s: "take 6 (drop 6 ?f) = mac_A"
    by (simp_all add: frame_eval)
  have o: "fst (parse_frame ?P (?P ! 0) ?f lookupTable) = [[0, 18, 0, 2] @ ?f]"
    unfolding flood_T1_T1 [OF f]
    by (simp add: ports_T1_T1 forward_to_def htons_def frame_eval)
  have "ifc_num (?P ! 0) = 1" by (simp add: ports_T1_T1)
  then have "snd (parse_frame ?P (?P ! 0) ?f lookupTable) =
      snd (save_to_table (lookup_table_init lookupTable) (zero_Interface\<lparr>mac := mac_A, ifc_num := 1\<rparr>))"
    by (rule parse_frame_learns_first [OF f(1,2) s])
  moreover have "holds (snd (save_to_table (lookup_table_init lookupTable) (zero_Interface\<lparr>mac := mac_A, ifc_num := 1\<rparr>))) 0 mac_A"
    using holds_first_learn(1) [of "zero_Interface\<lparr>mac := mac_A, ifc_num := 1\<rparr>"] by (simp add: IF_NO_INIT_def)
  ultimately show ?thesis using l f(4) o by simp
qed

text \<open>
  Claim C8, amended. In every table \<open>lt\<close> that a run reaches, a frame shorter than 14 bytes
  makes \<^verbatim>\<open>parse_frame\<close> write nothing and learn nothing (the table afterwards is \<open>lt\<close> once
  any frame has been handled before; the cursor and every lookup are those of \<open>lt\<close> in
  every case); and every frame of at least 14 bytes with a unicast source has that source
  learned on the ingress port, whatever its bytes at offset 12 and whether or not it
  reaches 18 bytes.
\<close>

theorem short_frame_dropped:
  assumes "run gifc inputs lookupTable = Some (out, lt)"
  shows "(length frame < 14 \<longrightarrow>
       fst (parse_frame gifc ifc frame lt) = [] \<and>
       (inputs \<noteq> [] \<longrightarrow> snd (parse_frame gifc ifc frame lt) = lt) \<and>
       current_position (snd (parse_frame gifc ifc frame lt)) = current_position lt \<and>
       (\<forall>M f. search_lookup_table (snd (parse_frame gifc ifc frame lt)) M f = search_lookup_table lt M f)) \<and>
     (14 \<le> length frame \<and> (frame ! 6) AND 1 = 0 \<longrightarrow>
       snd (parse_frame gifc ifc frame lt) =
         snd (save_to_table (if nbr_position lt = 0 then lookup_table_init lt else lt)
                (zero_Interface\<lparr>mac := take 6 (drop 6 frame), ifc_num := ifc_num ifc\<rparr>)))"
proof (rule conjI; rule impI)
  assume "length frame < 14"
  then have "parse_frame gifc ifc frame lt = ([], if nbr_position lt = 0 then lookup_table_init lt else lt)"
    by (rule parse_frame_short)
  with assms show "fst (parse_frame gifc ifc frame lt) = [] \<and>
       (inputs \<noteq> [] \<longrightarrow> snd (parse_frame gifc ifc frame lt) = lt) \<and>
       current_position (snd (parse_frame gifc ifc frame lt)) = current_position lt \<and>
       (\<forall>M f. search_lookup_table (snd (parse_frame gifc ifc frame lt)) M f = search_lookup_table lt M f)"
    by (rule dropped_keeps_table)
next
  assume "14 \<le> length frame \<and> (frame ! 6) AND 1 = 0"
  then show "snd (parse_frame gifc ifc frame lt) =
         snd (save_to_table (if nbr_position lt = 0 then lookup_table_init lt else lt)
                (zero_Interface\<lparr>mac := take 6 (drop 6 frame), ifc_num := ifc_num ifc\<rparr>))"
    by (simp add: parse_frame_learns src_read_header)
qed

theorem short_frame_dropped_witness:
  "fst (parse_frame (ports_of [''eth0[U:2]'', ''eth1[T:2]'']) (ports_of [''eth0[U:2]'', ''eth1[T:2]''] ! 0)
         (mac_bcast @ mac_A) lookupTable) = [] \<and>
   snd (parse_frame (ports_of [''eth0[U:2]'', ''eth1[T:2]'']) (ports_of [''eth0[U:2]'', ''eth1[T:2]''] ! 1)
         (mac_bcast @ mac_B)
         (snd (parse_frame (ports_of [''eth0[U:2]'', ''eth1[T:2]'']) (ports_of [''eth0[U:2]'', ''eth1[T:2]''] ! 0)
                 (mac_bcast @ mac_A @ ipv4_payload) lookupTable))) =
     snd (parse_frame (ports_of [''eth0[U:2]'', ''eth1[T:2]'']) (ports_of [''eth0[U:2]'', ''eth1[T:2]''] ! 0)
            (mac_bcast @ mac_A @ ipv4_payload) lookupTable) \<and>
   snd (parse_frame (ports_of [''eth0[U:2]'', ''eth1[T:2]'']) (ports_of [''eth0[U:2]'', ''eth1[T:2]''] ! 0)
         (mac_bcast @ mac_A @ [0x81, 0x00]) lookupTable) =
     snd (save_to_table (lookup_table_init lookupTable) (zero_Interface\<lparr>mac := mac_A, ifc_num := 1\<rparr>))"
proof -
  let ?P = "ports_of [''eth0[U:2]'', ''eth1[T:2]'']"
  have s1: "length (mac_bcast @ mac_A) < 14" and s2: "length (mac_bcast @ mac_B) < 14"
    and l3: "14 \<le> length (mac_bcast @ mac_A @ [0x81, 0x00]) \<and> ((mac_bcast @ mac_A @ [0x81, 0x00]) ! 6) AND 1 = 0"
    and src: "take 6 (drop 6 (mac_bcast @ mac_A @ [0x81, 0x00])) = mac_A"
    by (simp_all add: frame_eval)
  have ne: "[(1 :: uint16_t, mac_bcast @ mac_A @ ipv4_payload)] \<noteq> []" by simp
  have p: "ifc_num (?P ! 0) = 1" by (simp add: ports_U2_T2)
  have a: "fst (parse_frame ?P (?P ! 0) (mac_bcast @ mac_A) lookupTable) = []"
    using short_frame_dropped [OF run_nil, where frame = "mac_bcast @ mac_A" and gifc = ?P and ifc = "?P ! 0"] s1 by blast
  have b: "snd (parse_frame ?P (?P ! 1) (mac_bcast @ mac_B)
         (snd (parse_frame ?P (?P ! 0) (mac_bcast @ mac_A @ ipv4_payload) lookupTable))) =
     snd (parse_frame ?P (?P ! 0) (mac_bcast @ mac_A @ ipv4_payload) lookupTable)"
    using short_frame_dropped [OF run_first_frame [of "mac_bcast @ mac_A @ ipv4_payload"],
        where frame = "mac_bcast @ mac_B" and ifc = "?P ! 1"] s2 ne
    by blast
  have "snd (parse_frame ?P (?P ! 0) (mac_bcast @ mac_A @ [0x81, 0x00]) lookupTable) =
     snd (save_to_table (if nbr_position lookupTable = 0 then lookup_table_init lookupTable else lookupTable)
            (zero_Interface\<lparr>mac := take 6 (drop 6 (mac_bcast @ mac_A @ [0x81, 0x00])), ifc_num := ifc_num (?P ! 0)\<rparr>))"
    using short_frame_dropped [OF run_nil, where frame = "mac_bcast @ mac_A @ [0x81, 0x00]" and gifc = ?P and ifc = "?P ! 0"] l3
    by blast
  then have c: "snd (parse_frame ?P (?P ! 0) (mac_bcast @ mac_A @ [0x81, 0x00]) lookupTable) =
     snd (save_to_table (lookup_table_init lookupTable) (zero_Interface\<lparr>mac := mac_A, ifc_num := 1\<rparr>))"
    by (simp only: src p nbr_position_lookupTable refl if_True)
  from a b c show ?thesis by simp
qed

section \<open>Rejected port specifications\<close>

text \<open>
  Claim C9, as stated, fails: the parser accepts specifications that the grammar excludes.
  \<^verbatim>\<open>eth0[T:]\<close> (an empty list of VLANs) and \<^verbatim>\<open>[U:1]\<close> (an empty name) are both accepted,
  and \<^verbatim>\<open>main\<close> does not exit with 1 on them.
\<close>

theorem malformed_portspec_accepted:
  "\<not> spec_PORTSPEC ''eth0[T:]'' \<and>
   (\<forall>e. parse_vlan_args scan_digits ''eth0[T:]'' zero_Interface \<noteq> Inl e) \<and>
   \<not> spec_PORTSPEC ''[U:1]'' \<and>
   (\<forall>e. parse_vlan_args scan_digits ''[U:1]'' zero_Interface \<noteq> Inl e) \<and>
   main_ports scan_digits [''eth0[T:]'', ''[U:1]''] \<noteq> Inl 1"
proof -
  have s1: "\<not> spec_PORTSPEC ''eth0[T:]''"
    by (simp add: spec_PORTSPEC_def spec_NAME_def spec_MEMBERSHIP_def spec_VIDLIST_def spec_VID_def)
  have s2: "\<not> spec_PORTSPEC ''[U:1]''"
    by (simp add: spec_PORTSPEC_def spec_NAME_def)
  have a1: "\<forall>e. parse_vlan_args scan_digits ''eth0[T:]'' zero_Interface \<noteq> Inl e"
    using parse_vlan_args_fails [of "''eth0''" "''T:''" scan_digits "[]" zero_Interface]
    by (simp add: strtok_def)
  have a2: "\<forall>e. parse_vlan_args scan_digits ''[U:1]'' zero_Interface \<noteq> Inl e"
    using parse_vlan_args_fails [of "[]" "''U:1''" scan_digits "[]" zero_Interface]
    by (simp add: bad_vid_def scan_digits_1 MAX_VLANS_def)
  have "main_ports scan_digits [''eth0[T:]'', ''[U:1]''] \<noteq> Inl 1"
    unfolding main_ports_def parse_ports_fails using a1 a2 by simp
  with s1 s2 a1 a2 show ?thesis by blast
qed

text \<open>
  Claim C9, amended. A VID is a non-empty text of decimal digits whose number fits
  \<^verbatim>\<open>unsigned int\<close>; the one thing taken of \<^verbatim>\<open>sscanf\<close> is that it converts such a text exactly.
  \<^item> A specification without an opening bracket is accepted, as the untagged member of
    VLAN 0 named by the whole text.
  \<^item> A specification with no closing bracket behind its first opening bracket is
    rejected.
  \<^item> Otherwise, with \<open>body\<close> the text between the first opening bracket and the next
    closing bracket: the specification is rejected when \<open>body\<close> starts neither with
    \<^verbatim>\<open>T:\<close> nor with \<^verbatim>\<open>U:\<close>; when it starts with \<^verbatim>\<open>T:\<close> and the rest has more than 4092
    non-empty comma-separated tokens, or a token that is a VID greater than 4092; and
    when it starts with \<^verbatim>\<open>U:\<close> and the rest is a VID greater than 4092.
  \<^item> It is accepted when \<open>body\<close> starts with \<^verbatim>\<open>T:\<close> and the rest has at most 4092
    non-empty tokens, each a VID of at most 4092 (no token at all included), and when
    it starts with \<^verbatim>\<open>U:\<close> and the rest is a VID of at most 4092, which becomes the untagged
    VLAN. The name and the text behind the closing bracket are not looked at.
  \<^item> Nothing is said of a token that is not a VID (a sign, white space, letters, a
    number beyond \<^verbatim>\<open>unsigned int\<close>): what the parser does with it is what \<^verbatim>\<open>sscanf\<close> makes of
    it.
  \<^item> \<^verbatim>\<open>main\<close> exits with code 1 exactly when one of its arguments is rejected, and sets up
    the interfaces otherwise.
\<close>

theorem portspec_rejection:
  assumes "converts_exactly scan"
  shows "(CHR ''['' \<notin> set arg \<longrightarrow>
      (\<exists>g. parse_vlan_args scan arg ifc = Inr g \<and> ifc_name g = arg \<and> untagged_vlan g = DEFAULT_VLAN \<and>
           tagged_vlans g = (tagged_vlans ifc)[0 := NO_VLAN])) \<and>
   (CHR ''['' \<notin> set name \<and> CHR '']'' \<notin> set after \<longrightarrow>
      parse_vlan_args scan (name @ CHR ''['' # after) ifc = Inl LacksCloseBracket) \<and>
   (CHR ''['' \<notin> set name \<and> CHR '']'' \<notin> set body \<and>
    (\<forall>spec. body \<noteq> CHR ''T'' # CHR '':'' # spec \<and> body \<noteq> CHR ''U'' # CHR '':'' # spec) \<longrightarrow>
      (\<exists>e. parse_vlan_args scan (name @ CHR ''['' # body @ CHR '']'' # rest) ifc = Inl e)) \<and>
   (CHR ''['' \<notin> set name \<and> CHR '']'' \<notin> set spec \<and>
    (MAX_VLANS < length (strtok spec) \<or>
     (\<exists>tok \<in> set (strtok spec). plain_number tok \<and> MAX_VLANS < decimal tok)) \<longrightarrow>
      (\<exists>e. parse_vlan_args scan (name @ CHR ''['' # CHR ''T'' # CHR '':'' # spec @ CHR '']'' # rest) ifc = Inl e)) \<and>
   (CHR ''['' \<notin> set name \<and> CHR '']'' \<notin> set spec \<and> length (strtok spec) \<le> MAX_VLANS \<and>
    (\<forall>tok \<in> set (strtok spec). plain_number tok \<and> decimal tok \<le> MAX_VLANS) \<longrightarrow>
      (\<exists>g. parse_vlan_args scan (name @ CHR ''['' # CHR ''T'' # CHR '':'' # spec @ CHR '']'' # rest) ifc = Inr g)) \<and>
   (CHR ''['' \<notin> set name \<and> plain_number spec \<and> MAX_VLANS < decimal spec \<longrightarrow>
      (\<exists>e. parse_vlan_args scan (name @ CHR ''['' # CHR ''U'' # CHR '':'' # spec @ CHR '']'' # rest) ifc = Inl e)) \<and>
   (CHR ''['' \<notin> set name \<and> plain_number spec \<and> decimal spec \<le> MAX_VLANS \<longrightarrow>
      (\<exists>g. parse_vlan_args scan (name @ CHR ''['' # CHR ''U'' # CHR '':'' # spec @ CHR '']'' # rest) ifc = Inr g \<and>
           ifc_name g = name \<and> untagged_vlan g = int (decimal spec))) \<and>
   (main_ports scan args = Inl 1 \<longleftrightarrow>
      (\<exists>a \<in> set args. \<exists>e. parse_vlan_args scan a zero_Interface = Inl e)) \<and>
   (main_ports scan args = Inl 1 \<or> (\<exists>gifc. main_ports scan args = Inr gifc))"
proof -
  note bad = bad_vid_plain [OF assms]
  have p1: "CHR ''['' \<notin> set arg \<longrightarrow>
      (\<exists>g. parse_vlan_args scan arg ifc = Inr g \<and> ifc_name g = arg \<and> untagged_vlan g = DEFAULT_VLAN \<and>
           tagged_vlans g = (tagged_vlans ifc)[0 := NO_VLAN])"
    by (simp add: parse_vlan_args_bare)
  have p2: "CHR ''['' \<notin> set name \<and> CHR '']'' \<notin> set after \<longrightarrow>
      parse_vlan_args scan (name @ CHR ''['' # after) ifc = Inl LacksCloseBracket"
    by (simp add: parse_vlan_args_unclosed)
  have p3: "CHR ''['' \<notin> set name \<and> CHR '']'' \<notin> set body \<and>
    (\<forall>spec. body \<noteq> CHR ''T'' # CHR '':'' # spec \<and> body \<noteq> CHR ''U'' # CHR '':'' # spec) \<longrightarrow>
      (\<exists>e. parse_vlan_args scan (name @ CHR ''['' # body @ CHR '']'' # rest) ifc = Inl e)"
    using parse_vlan_args_fails [of name body scan rest ifc] by blast
  have p4: "CHR ''['' \<notin> set name \<and> CHR '']'' \<notin> set spec \<and>
    (MAX_VLANS < length (strtok spec) \<or>
     (\<exists>tok \<in> set (strtok spec). plain_number tok \<and> MAX_VLANS < decimal tok)) \<longrightarrow>
      (\<exists>e. parse_vlan_args scan (name @ CHR ''['' # CHR ''T'' # CHR '':'' # spec @ CHR '']'' # rest) ifc = Inl e)"
  proof
    assume a: "CHR ''['' \<notin> set name \<and> CHR '']'' \<notin> set spec \<and>
      (MAX_VLANS < length (strtok spec) \<or>
       (\<exists>tok \<in> set (strtok spec). plain_number tok \<and> MAX_VLANS < decimal tok))"
    then have "MAX_VLANS < length (strtok spec) \<or> (\<exists>tok \<in> set (strtok spec). bad_vid scan tok)"
      using bad by blast
    moreover have "CHR '']'' \<notin> set (CHR ''T'' # CHR '':'' # spec)" using a by simp
    ultimately show "\<exists>e. parse_vlan_args scan (name @ CHR ''['' # CHR ''T'' # CHR '':'' # spec @ CHR '']'' # rest) ifc = Inl e"
      using a parse_vlan_args_fails [of name "CHR ''T'' # CHR '':'' # spec" scan rest ifc] by simp
  qed
  have p5: "CHR ''['' \<notin> set name \<and> CHR '']'' \<notin> set spec \<and> length (strtok spec) \<le> MAX_VLANS \<and>
    (\<forall>tok \<in> set (strtok spec). plain_number tok \<and> decimal tok \<le> MAX_VLANS) \<longrightarrow>
      (\<exists>g. parse_vlan_args scan (name @ CHR ''['' # CHR ''T'' # CHR '':'' # spec @ CHR '']'' # rest) ifc = Inr g)"
  proof
    assume a: "CHR ''['' \<notin> set name \<and> CHR '']'' \<notin> set spec \<and> length (strtok spec) \<le> MAX_VLANS \<and>
      (\<forall>tok \<in> set (strtok spec). plain_number tok \<and> decimal tok \<le> MAX_VLANS)"
    then have "\<not> (MAX_VLANS < length (strtok spec) \<or> (\<exists>tok \<in> set (strtok spec). bad_vid scan tok))"
      using bad by auto
    moreover have "CHR '']'' \<notin> set (CHR ''T'' # CHR '':'' # spec)" using a by simp
    ultimately have "\<not> (\<exists>e. parse_vlan_args scan (name @ CHR ''['' # CHR ''T'' # CHR '':'' # spec @ CHR '']'' # rest) ifc = Inl e)"
      using a parse_vlan_args_fails [of name "CHR ''T'' # CHR '':'' # spec" scan rest ifc] by simp
    then show "\<exists>g. parse_vlan_args scan (name @ CHR ''['' # CHR ''T'' # CHR '':'' # spec @ CHR '']'' # rest) ifc = Inr g"
      by (cases "parse_vlan_args scan (name @ CHR ''['' # CHR ''T'' # CHR '':'' # spec @ CHR '']'' # rest) ifc") simp_all
  qed
  have p6: "CHR ''['' \<notin> set name \<and> plain_number spec \<and> MAX_VLANS < decimal spec \<longrightarrow>
      (\<exists>e. parse_vlan_args scan (name @ CHR ''['' # CHR ''U'' # CHR '':'' # spec @ CHR '']'' # rest) ifc = Inl e)"
  proof
    assume a: "CHR ''['' \<notin> set name \<and> plain_number spec \<and> MAX_VLANS < decimal spec"
    then have "bad_vid scan spec" using bad by blast
    moreover have "CHR '']'' \<notin> set (CHR ''U'' # CHR '':'' # spec)"
      using a digits_no_bracket [of spec] by (simp add: plain_number_def)
    ultimately show "\<exists>e. parse_vlan_args scan (name @ CHR ''['' # CHR ''U'' # CHR '':'' # spec @ CHR '']'' # rest) ifc = Inl e"
      using a parse_vlan_args_fails [of name "CHR ''U'' # CHR '':'' # spec" scan rest ifc] by simp
  qed
  have p7: "CHR ''['' \<notin> set name \<and> plain_number spec \<and> decimal spec \<le> MAX_VLANS \<longrightarrow>
      (\<exists>g. parse_vlan_args scan (name @ CHR ''['' # CHR ''U'' # CHR '':'' # spec @ CHR '']'' # rest) ifc = Inr g \<and>
           ifc_name g = name \<and> untagged_vlan g = int (decimal spec))"
  proof
    assume a: "CHR ''['' \<notin> set name \<and> plain_number spec \<and> decimal spec \<le> MAX_VLANS"
    then have s: "scan spec = Some (decimal spec)" using assms by (simp add: converts_exactly_def)
    have nb: "CHR '']'' \<notin> set spec" using a digits_no_bracket [of spec] by (simp add: plain_number_def)
    from a have n: "CHR ''['' \<notin> set name" and le: "decimal spec \<le> MAX_VLANS" by simp_all
    show "\<exists>g. parse_vlan_args scan (name @ CHR ''['' # CHR ''U'' # CHR '':'' # spec @ CHR '']'' # rest) ifc = Inr g \<and>
           ifc_name g = name \<and> untagged_vlan g = int (decimal spec)"
      using n nb s le by (rule parse_vlan_args_untagged_value)
  qed
  have p8: "main_ports scan args = Inl 1 \<longleftrightarrow>
      (\<exists>a \<in> set args. \<exists>e. parse_vlan_args scan a zero_Interface = Inl e)"
    unfolding main_ports_def by (rule parse_ports_fails)
  have p9: "main_ports scan args = Inl 1 \<or> (\<exists>gifc. main_ports scan args = Inr gifc)"
    unfolding main_ports_def
    by (cases "parse_ports scan args 1") (auto dest: parse_ports_exit_code)
  show ?thesis by (intro conjI p1 p2 p3 p4 p5 p6 p7 p8 p9)
qed

theorem portspec_rejection_witness:
  "(\<exists>g. parse_vlan_args scan_digits ''eth0'' zero_Interface = Inr g \<and> untagged_vlan g = 0) \<and>
   parse_vlan_args scan_digits ''eth0[T:1'' zero_Interface = Inl LacksCloseBracket \<and>
   (\<exists>e. parse_vlan_args scan_digits ''eth0[X:1]'' zero_Interface = Inl e) \<and>
   (\<exists>e. parse_vlan_args scan_digits ''eth0[T:1,4093]'' zero_Interface = Inl e) \<and>
   (\<exists>g. parse_vlan_args scan_digits ''eth0[T:1,2]'' zero_Interface = Inr g) \<and>
   (\<exists>e. parse_vlan_args scan_digits ''eth0[U:4093]'' zero_Interface = Inl e) \<and>
   (\<exists>g. parse_vlan_args scan_digits ''eth0[U:7]'' zero_Interface = Inr g \<and> untagged_vlan g = 7) \<and>
   main_ports scan_digits [''eth0'', ''eth1[X:1]''] = Inl 1"
proof -
  note th = portspec_rejection [OF converts_exactly_scan_digits, where ifc = zero_Interface and rest = "[]"]
  have t: "strtok ''1,4093'' = [''1'', ''4093'']" "strtok ''1,2'' = [''1'', ''2'']"
    by (simp_all add: strtok_def)
  have a: "\<exists>g. parse_vlan_args scan_digits ''eth0'' zero_Interface = Inr g \<and> untagged_vlan g = 0"
    using th [where arg = "''eth0''", THEN conjunct1] by (auto simp: DEFAULT_VLAN_def)
  have b: "parse_vlan_args scan_digits ''eth0[T:1'' zero_Interface = Inl LacksCloseBracket"
    using th [where name = "''eth0''" and after = "''T:1''", THEN conjunct2, THEN conjunct1] by simp
  have c: "\<exists>e. parse_vlan_args scan_digits ''eth0[X:1]'' zero_Interface = Inl e"
    using th [where name = "''eth0''" and body = "''X:1''", THEN conjunct2, THEN conjunct2, THEN conjunct1]
    by simp
  have d: "\<exists>e. parse_vlan_args scan_digits ''eth0[T:1,4093]'' zero_Interface = Inl e"
    using th [where name = "''eth0''" and spec = "''1,4093''",
        THEN conjunct2, THEN conjunct2, THEN conjunct2, THEN conjunct1]
    by (simp add: t plain_samples MAX_VLANS_def)
  have e: "\<exists>g. parse_vlan_args scan_digits ''eth0[T:1,2]'' zero_Interface = Inr g"
    using th [where name = "''eth0''" and spec = "''1,2''",
        THEN conjunct2, THEN conjunct2, THEN conjunct2, THEN conjunct2, THEN conjunct1]
    by (simp add: t plain_samples MAX_VLANS_def)
  have f: "\<exists>e. parse_vlan_args scan_digits ''eth0[U:4093]'' zero_Interface = Inl e"
    using th [where name = "''eth0''" and spec = "''4093''",
        THEN conjunct2, THEN conjunct2, THEN conjunct2, THEN conjunct2, THEN conjunct2, THEN conjunct1]
    by (simp add: plain_samples MAX_VLANS_def)
  have g: "\<exists>g. parse_vlan_args scan_digits ''eth0[U:7]'' zero_Interface = Inr g \<and> untagged_vlan g = 7"
    using th [where name = "''eth0''" and spec = "''7''",
        THEN conjunct2, THEN conjunct2, THEN conjunct2, THEN conjunct2, THEN conjunct2, THEN conjunct2,
        THEN conjunct1]
    by (auto simp: plain_samples MAX_VLANS_def)
  have c': "\<exists>e. parse_vlan_args scan_digits ''eth1[X:1]'' zero_Interface = Inl e"
    using th [where name = "''eth1''" and body = "''X:1''", THEN conjunct2, THEN conjunct2, THEN conjunct1]
    by simp
  have h: "main_ports scan_digits [''eth0'', ''eth1[X:1]''] = Inl 1"
    using th [where args = "[''eth0'', ''eth1[X:1]'']",
        THEN conjunct2, THEN conjunct2, THEN conjunct2, THEN conjunct2, THEN conjunct2, THEN conjunct2,
        THEN conjunct2, THEN conjunct1] c'
    by simp
  from a b c d e f g h show ?thesis by blast
qed

section \<open>Lookups and unwritten slots\<close>

text \<open>
  Claim C10. \<^verbatim>\<open>lookup_table_init\<close> gives every slot the zero address and the port
  \<open>IF_NO_INIT\<close>; a position returned by \<^verbatim>\<open>search_lookup_table\<close> always belongs to a slot
  whose port is not \<open>IF_NO_INIT\<close>; and in every table reached by a run in which no handled
  frame had the all-zero source address, looking up the all-zero address returns \<open>-1\<close>.
\<close>

theorem lookup_skips_unwritten_slots:
  "(length (table lt0) = NBR_ENTRIES \<longrightarrow>
      (\<forall>k < NBR_ENTRIES. mac (table (lookup_table_init lt0) ! k) = empty_mac \<and>
                          ifc_num (table (lookup_table_init lt0) ! k) = IF_NO_INIT)) \<and>
   (fst (search_lookup_table lt1 M f) \<noteq> - 1 \<longrightarrow>
      0 \<le> fst (search_lookup_table lt1 M f) \<and>
      ifc_num (table lt1 ! nat (fst (search_lookup_table lt1 M f))) \<noteq> IF_NO_INIT) \<and>
   (run gifc inputs lookupTable = Some (out, lt) \<and>
    (\<forall>(p, frame) \<in> set inputs. 14 \<le> length frame \<longrightarrow> take 6 (drop 6 frame) \<noteq> empty_mac) \<longrightarrow>
      search_lookup_table lt empty_mac f = (- 1, f))"
proof -
  have p1: "length (table lt0) = NBR_ENTRIES \<longrightarrow>
      (\<forall>k < NBR_ENTRIES. mac (table (lookup_table_init lt0) ! k) = empty_mac \<and>
                          ifc_num (table (lookup_table_init lt0) ! k) = IF_NO_INIT)"
    by (simp add: table_lookup_table_init)
  have p2: "fst (search_lookup_table lt1 M f) \<noteq> - 1 \<longrightarrow>
      0 \<le> fst (search_lookup_table lt1 M f) \<and>
      ifc_num (table lt1 ! nat (fst (search_lookup_table lt1 M f))) \<noteq> IF_NO_INIT"
    using search_result_live [of lt1 M f] by simp
  have p3: "run gifc inputs lookupTable = Some (out, lt) \<and>
    (\<forall>(p, frame) \<in> set inputs. 14 \<le> length frame \<longrightarrow> take 6 (drop 6 frame) \<noteq> empty_mac) \<longrightarrow>
      search_lookup_table lt empty_mac f = (- 1, f)"
  proof
    assume a: "run gifc inputs lookupTable = Some (out, lt) \<and>
      (\<forall>(p, frame) \<in> set inputs. 14 \<le> length frame \<longrightarrow> take 6 (drop 6 frame) \<noteq> empty_mac)"
    then have "(table_inv lt \<and> (\<forall>k. \<not> holds lt k empty_mac)) \<or> lt = lookupTable"
      by (intro run_no_empty [of gifc inputs lookupTable out lt]) simp_all
    then show "search_lookup_table lt empty_mac f = (- 1, f)"
    proof
      assume "table_inv lt \<and> (\<forall>k. \<not> holds lt k empty_mac)"
      then show ?thesis
        by (intro search_absent) (simp_all add: table_inv_def empty_mac_def MAC_ADDR_SIZE_def)
    next
      assume "lt = lookupTable"
      then show ?thesis by (simp add: search_uninitialised nbr_position_lookupTable)
    qed
  qed
  show ?thesis by (rule conjI [OF p1 conjI [OF p2 p3]])
qed

theorem lookup_skips_unwritten_slots_witness:
  "mac (table (lookup_table_init lookupTable) ! 0) = empty_mac \<and>
   ifc_num (table (lookup_table_init lookupTable) ! 0) = IF_NO_INIT \<and>
   fst (search_lookup_table
          (snd (save_to_table (lookup_table_init lookupTable) (zero_Interface\<lparr>mac := mac_A, ifc_num := 1\<rparr>)))
          mac_A zero_Interface) = 0 \<and>
   ifc_num (table (snd (save_to_table (lookup_table_init lookupTable) (zero_Interface\<lparr>mac := mac_A, ifc_num := 1\<rparr>))) ! 0)
     \<noteq> IF_NO_INIT \<and>
   search_lookup_table
     (snd (parse_frame (ports_of [''eth0[U:2]'', ''eth1[T:2]'']) (ports_of [''eth0[U:2]'', ''eth1[T:2]''] ! 0)
            (mac_bcast @ mac_A @ ipv4_payload) lookupTable))
     empty_mac zero_Interface = (- 1, zero_Interface)"
proof -
  let ?P = "ports_of [''eth0[U:2]'', ''eth1[T:2]'']"
  let ?f = "mac_bcast @ mac_A @ ipv4_payload"
  let ?A1 = "zero_Interface\<lparr>mac := mac_A, ifc_num := 1\<rparr>"
  let ?L1 = "snd (save_to_table (lookup_table_init lookupTable) ?A1)"
  have k0: "(0::nat) < NBR_ENTRIES" by (simp add: NBR_ENTRIES_def)
  have a: "mac (table (lookup_table_init lookupTable) ! 0) = empty_mac \<and>
      ifc_num (table (lookup_table_init lookupTable) ! 0) = IF_NO_INIT"
    using lookup_skips_unwritten_slots [where ?lt0.0 = lookupTable] length_table_lookupTable k0 by blast
  have inv1: "table_inv ?L1" by (rule table_inv_save [OF table_inv_init_lookupTable]) simp
  have h: "holds ?L1 0 mac_A" using holds_first_learn(1) [of ?A1] by (simp add: IF_NO_INIT_def)
  have s: "fst (search_lookup_table ?L1 mac_A zero_Interface) = 0"
    using search_holds [OF inv1 _ h, of zero_Interface] by simp
  then have "fst (search_lookup_table ?L1 mac_A zero_Interface) \<noteq> - 1" by simp
  with lookup_skips_unwritten_slots [where ?lt1.0 = ?L1 and M = mac_A and f = zero_Interface]
  have "ifc_num (table ?L1 ! nat (fst (search_lookup_table ?L1 mac_A zero_Interface))) \<noteq> IF_NO_INIT"
    by blast
  then have b: "ifc_num (table ?L1 ! 0) \<noteq> IF_NO_INIT" by (simp add: s)
  have src: "\<forall>(p, frame) \<in> set [(1 :: uint16_t, ?f)]. 14 \<le> length frame \<longrightarrow> take 6 (drop 6 frame) \<noteq> empty_mac"
    by (simp add: frame_eval empty_mac_def)
  have c: "search_lookup_table (snd (parse_frame ?P (?P ! 0) ?f lookupTable)) empty_mac zero_Interface = (- 1, zero_Interface)"
    using lookup_skips_unwritten_slots [where f = zero_Interface and gifc = ?P and inputs = "[(1, ?f)]"]
      run_first_frame [of ?f] src
    by blast
  from a s b c show ?thesis by simp
qed

end
